theory Spec2Isabelle
  imports Main "HOL-Library.Multiset" "HOL-Library.AList" "HOL-Library.List_Lexorder"
    "HOL-Library.Char_ord" "HOL-Library.Sublist"
begin

section \<open>Go strings and the library routines used by the stat parsers\<close>

text \<open>
  A Go \<open>string\<close> is a sequence of bytes; \<^typ>\<open>string\<close> (a list of 8-bit characters)
  is exactly that.  A \<open>rune\<close> is a code point (an \<open>int32\<close> in Go), kept as an integer.
\<close>

type_synonym rune = int

definition RuneError :: rune where
  "RuneError = 0xFFFD"

text \<open>
  \<open>utf8.DecodeRuneInString\<close>: the first rune of a byte string and its width in bytes.
  An empty string gives \<open>(RuneError, 0)\<close>, a malformed encoding \<open>(RuneError, 1)\<close>.
  \<open>leadByte\<close> is the table \<open>first\<close> of package \<open>utf8\<close> together with
  \<open>acceptRanges\<close>: for a leading byte, the length of the encoding and the range
  allowed for the second byte.
\<close>

definition leadByte :: "int \<Rightarrow> (nat \<times> int \<times> int) option" where
  "leadByte b =
     (if b < 0xC2 then None
      else if b < 0xE0 then Some (2, 0x80, 0xBF)
      else if b = 0xE0 then Some (3, 0xA0, 0xBF)
      else if b < 0xED then Some (3, 0x80, 0xBF)
      else if b = 0xED then Some (3, 0x80, 0x9F)
      else if b < 0xF0 then Some (3, 0x80, 0xBF)
      else if b = 0xF0 then Some (4, 0x90, 0xBF)
      else if b < 0xF4 then Some (4, 0x80, 0xBF)
      else if b = 0xF4 then Some (4, 0x80, 0x8F)
      else None)"

definition contByte :: "int \<Rightarrow> bool" where
  "contByte b \<longleftrightarrow> 0x80 \<le> b \<and> b \<le> 0xBF"

definition decodeRune :: "string \<Rightarrow> rune \<times> nat" where
  "decodeRune s =
     (case map of_char s of
        [] \<Rightarrow> (RuneError, 0)
      | s0 # t \<Rightarrow>
          if s0 < 0x80 then (s0, 1)
          else (case leadByte s0 of
                  None \<Rightarrow> (RuneError, 1)
                | Some (sz, lo, hi) \<Rightarrow>
                    if length t + 1 < sz then (RuneError, 1)
                    else let s1 = t ! 0 in
                      if s1 < lo \<or> hi < s1 then (RuneError, 1)
                      else if sz \<le> 2
                        then ((s0 mod 0x20) * 0x40 + s1 mod 0x40, 2)
                      else let s2 = t ! 1 in
                        if \<not> contByte s2 then (RuneError, 1)
                        else if sz \<le> 3
                          then ((s0 mod 0x10) * 0x1000 + (s1 mod 0x40) * 0x40
                                  + s2 mod 0x40, 3)
                        else let s3 = t ! 2 in
                          if \<not> contByte s3 then (RuneError, 1)
                          else ((s0 mod 0x08) * 0x40000 + (s1 mod 0x40) * 0x1000
                                  + (s2 mod 0x40) * 0x40 + s3 mod 0x40, 4)))"

text \<open>\<open>unicode.IsSpace\<close>: the Latin-1 cases, then the \<open>White_Space\<close> table.\<close>

definition IsSpace :: "rune \<Rightarrow> bool" where
  "IsSpace r \<longleftrightarrow>
     (if r \<le> 0xFF
      then (0x09 \<le> r \<and> r \<le> 0x0D) \<or> r = 0x20 \<or> r = 0x85 \<or> r = 0xA0
      else r = 0x1680 \<or> (0x2000 \<le> r \<and> r \<le> 0x200A) \<or> r = 0x2028 \<or> r = 0x2029
           \<or> r = 0x202F \<or> r = 0x205F \<or> r = 0x3000)"

lemma decodeRune_width_pos: "s \<noteq> [] \<Longrightarrow> 0 < snd (decodeRune s)"
  by (cases s) (auto simp: decodeRune_def Let_def split: option.splits)

lemma decodeRune_drop:
  "(r, w) = decodeRune (c # cs) \<Longrightarrow> length (drop w (c # cs)) < Suc (length cs)"
  using decodeRune_width_pos [of "c # cs"] by (cases w) (auto simp: snd_def split: prod.splits)

text \<open>
  \<open>strings.Fields\<close>: the maximal runs of non-space runes.  The loop of
  \<open>strings.FieldsFunc\<close> walks the string rune by rune; \<open>cur\<close> holds the bytes of the
  field that is open (empty when none is: a field has at least one rune).  On ASCII
  input the fast path of \<open>strings.Fields\<close> computes the same list.
\<close>

function FieldsFrom :: "string \<Rightarrow> string \<Rightarrow> string list" where
  "FieldsFrom cur [] = (if cur = [] then [] else [cur])"
| "FieldsFrom cur (c # cs) =
     (case decodeRune (c # cs) of
        (r, w) \<Rightarrow>
          if IsSpace r
            then (if cur = [] then FieldsFrom [] (drop w (c # cs))
                  else cur # FieldsFrom [] (drop w (c # cs)))
          else FieldsFrom (cur @ take w (c # cs)) (drop w (c # cs)))"
  by pat_completeness auto
termination
  by (relation "measure (\<lambda>(cur, s). length s)")
     (auto dest: decodeRune_drop)

definition Fields :: "string \<Rightarrow> string list" where
  "Fields s = FieldsFrom [] s"

text \<open>
  \<open>strings.Split(s, sep)\<close> for a separator of one byte (both call sites pass
  \<open>"\n"\<close>): the pieces between the separators, always at least one piece.
\<close>

fun Split :: "char \<Rightarrow> string \<Rightarrow> string list" where
  "Split sep [] = [[]]"
| "Split sep (c # cs) =
     (if c = sep then [] # Split sep cs
      else (case Split sep cs of
              [] \<Rightarrow> [[c]]
            | l # ls \<Rightarrow> (c # l) # ls))"

definition newline :: char where
  "newline = CHR 0x0A"

text \<open>
  Indexing a Go slice panics out of range (\<open>index out of range [i] with length n\<close>);
  the panic is a value of the model.
\<close>

datatype panic = IndexOutOfRange nat nat

definition index :: "'a list \<Rightarrow> nat \<Rightarrow> panic + 'a" where
  "index xs i = (if i < length xs then Inr (xs ! i) else Inl (IndexOutOfRange i (length xs)))"

section \<open>The stat parsers\<close>

text \<open>
  \<open>parseCPUUsage\<close>: the arguments of \<open>Sprintf\<close> are evaluated left to right, so
  \<open>parts[1]\<close> is read before \<open>parts[3]\<close>.
\<close>

definition parseCPUUsage :: "string \<Rightarrow> panic + string" where
  "parseCPUUsage cpuStat =
     (let parts = Fields cpuStat in
      case index parts 1 of
        Inl p \<Rightarrow> Inl p
      | Inr user \<Rightarrow>
          (case index parts 3 of
             Inl p \<Rightarrow> Inl p
           | Inr sys \<Rightarrow>
               Inr (''User Space: '' @ user @ ''%; System Space: '' @ sys @ ''%'')))"

definition parseMemoryUsage :: "string \<Rightarrow> panic + string" where
  "parseMemoryUsage memStat =
     (let lines = Split newline memStat in
      case index lines 1 of
        Inl p \<Rightarrow> Inl p
      | Inr line1 \<Rightarrow>
          (let memParts = Fields line1 in
           case index memParts 1 of
             Inl p \<Rightarrow> Inl p
           | Inr total' \<Rightarrow>
               (case index memParts 2 of
                  Inl p \<Rightarrow> Inl p
                | Inr used \<Rightarrow>
                    Inr (''Total Memory: '' @ total' @ '' MB; Used Memory: '' @ used
                           @ '' MB''))))"

section \<open>float64 values, \<open>strconv.ParseFloat\<close> and the \<open>fmt\<close> verbs\<close>

text \<open>
  \<open>json.Unmarshal\<close> stores every JSON number as a \<open>float64\<close>.  A finite \<open>float64\<close> is
  kept exactly: \<open>Float64 neg mant p\<close> is \<open>\<plusminus> mant * 2 ^ p\<close> with the IEEE mantissa
  \<open>0 \<le> mant < 2 ^ 53\<close> and \<open>- 1074 \<le> p \<le> 971\<close>, where \<open>2 ^ 52 \<le> mant\<close> unless
  \<open>p = - 1074\<close> (subnormal numbers and zero).  NaN and the infinities never come out of
  the decoder.  All arithmetic below is exact integer arithmetic.
\<close>

datatype float64 = Float64 bool int int

definition pow2 :: "int \<Rightarrow> int" where
  "pow2 k = 2 ^ nat k"

definition pow10 :: "int \<Rightarrow> int" where
  "pow10 k = 10 ^ nat k"

function ilog2 :: "int \<Rightarrow> int" where
  "ilog2 n = (if n < 2 then 0 else 1 + ilog2 (n div 2))"
  by pat_completeness auto
termination
  by (relation "measure nat") auto

declare ilog2.simps [simp del]

text \<open>Rounding the quotient \<open>n / d\<close> to the nearest integer, ties to even.\<close>

definition roundHalfEven :: "int \<Rightarrow> int \<Rightarrow> int" where
  "roundHalfEven n d =
     (let q = n div d; r = n mod d
      in if d < 2 * r \<or> (2 * r = d \<and> odd q) then q + 1 else q)"

text \<open>
  The \<open>float64\<close> nearest to the positive rational \<open>num / den\<close> (ties to even), as
  \<open>strconv.ParseFloat\<close> computes it; \<open>None\<close> when the result overflows (\<open>ErrRange\<close>).
\<close>

definition roundFloat64 :: "int \<Rightarrow> int \<Rightarrow> (int \<times> int) option" where
  "roundFloat64 num den =
     (let e0 = ilog2 num - ilog2 den;
          e = (if den * pow2 e0 \<le> num * pow2 (- e0) then e0 else e0 - 1);
          p = max (e - 52) (- 1074);
          m = roundHalfEven (num * pow2 (- p)) (den * pow2 p);
          (mant, p') = (if m = pow2 53 then (pow2 52, p + 1) else (m, p))
      in if 971 < p' then None else Some (mant, p'))"

text \<open>Decimal digits, most significant first; \<open>0\<close> has the one digit \<open>0\<close>.\<close>

function digitsOf :: "int \<Rightarrow> int list" where
  "digitsOf n = (if n < 10 then [n] else digitsOf (n div 10) @ [n mod 10])"
  by pat_completeness auto
termination
  by (relation "measure nat") auto

declare digitsOf.simps [simp del]

definition digitChar :: "int \<Rightarrow> char" where
  "digitChar d = char_of (48 + d)"

definition itoa :: "int \<Rightarrow> string" where
  "itoa n = (if n < 0 then CHR ''-'' # map digitChar (digitsOf (- n))
             else map digitChar (digitsOf n))"

definition isDigit :: "char \<Rightarrow> bool" where
  "isDigit c \<longleftrightarrow> (48::int) \<le> of_char c \<and> of_char c \<le> (57::int)"

definition digitVal :: "char \<Rightarrow> int" where
  "digitVal c = of_char c - 48"

definition atoi :: "string \<Rightarrow> int" where
  "atoi ds = foldl (\<lambda>n c. 10 * n + digitVal c) 0 ds"

text \<open>
  \<open>ParseFloat\<close> on a literal of the JSON number grammar, given in its parts: the
  sign, the digits before and after the point, and the (signed) exponent.
\<close>

definition ParseFloat :: "bool \<Rightarrow> string \<Rightarrow> string \<Rightarrow> int \<Rightarrow> float64 option" where
  "ParseFloat neg ip fp ex =
     (let m = atoi (ip @ fp); e = ex - int (length fp)
      in if m = 0 then Some (Float64 neg 0 (- 1074))
         else (case roundFloat64 (m * pow10 e) (pow10 (- e)) of
                 None \<Rightarrow> None
               | Some (mant, p) \<Rightarrow> Some (Float64 neg mant p)))"

text \<open>The verb \<open>%.0f\<close>: the exact value rounded to an integer, ties to even.\<close>

definition fmt_f0 :: "float64 \<Rightarrow> string" where
  "fmt_f0 f =
     (case f of Float64 neg mant p \<Rightarrow>
        (if neg then ''-'' else '''') @ itoa (roundHalfEven (mant * pow2 p) (pow2 (- p))))"

text \<open>
  The verb \<open>%v\<close> on a \<open>float64\<close> is \<open>%g\<close> with the shortest decimal that reads back as
  the same \<open>float64\<close> (\<open>strconv.FormatFloat(f, 'g', -1, 64)\<close>).  \<open>shortestWalk\<close> is the
  digit walk of \<open>roundShortest\<close>: the digits of the exact value are consumed one by one
  (\<open>P\<close> is the prefix read so far, \<open>10 ^ j\<close> the weight of the digit being read) until
  truncating (\<open>down\<close>) or rounding up (\<open>up\<close>) lands inside the rounding interval
  \<open>lower .. upper\<close>, whose ends count when the mantissa is even.  All quantities are
  multiples of \<open>1 / den\<close>, and the result \<open>(N, j)\<close> stands for \<open>N * 10 ^ j\<close>.
\<close>

fun shortestWalk :: "int \<Rightarrow> int \<Rightarrow> int \<Rightarrow> bool \<Rightarrow> int \<Rightarrow> int \<Rightarrow> int list \<Rightarrow> int \<times> int" where
  "shortestWalk lower upper den incl P j [] = (P, j + 1)"
| "shortestWalk lower upper den incl P j (x # xs) =
     (let down = 10 * P + x; up = down + 1;
          okdown = (lower * pow10 (- j) < down * pow10 j * den
                    \<or> (incl \<and> lower * pow10 (- j) = down * pow10 j * den));
          okup = (up * pow10 j * den < upper * pow10 (- j)
                    \<or> (incl \<and> up * pow10 j * den = upper * pow10 (- j)));
          roundUp = (case xs of
                       [] \<Rightarrow> False
                     | y # ys \<Rightarrow> if y = 5 \<and> ys = [] then odd x else 5 \<le> y)
      in if okdown \<and> okup then (if roundUp then up else down, j)
         else if okdown then (down, j)
         else if okup then (up, j)
         else shortestWalk lower upper den incl down (j - 1) xs)"

definition trimZeros :: "int list \<Rightarrow> int list" where
  "trimZeros ds = rev (dropWhile (\<lambda>d. d = 0) (rev ds))"

text \<open>
  \<open>exactDecimal n q\<close> is the exact decimal expansion of \<open>n * 2 ^ q\<close>: its digits
  \<open>ds\<close> without trailing zeros and the position \<open>dp\<close> of the decimal point, so that
  the value is \<open>0.ds * 10 ^ dp\<close>.  \<open>shortestDigits\<close> gives the shortest digits of a
  positive \<open>float64\<close> in the same form.
\<close>

definition exactDecimal :: "int \<Rightarrow> int \<Rightarrow> int list \<times> int" where
  "exactDecimal n q =
     (let ds = digitsOf (n * pow2 q * 5 ^ nat (- q))
      in (trimZeros ds, int (length ds) + (if q < 0 then q else 0)))"

definition shortestDigits :: "int \<Rightarrow> int \<Rightarrow> int list \<times> int" where
  "shortestDigits mant p =
     (let den = 4 * pow2 (- p);
          upper = (4 * mant + 2) * pow2 p;
          lower = (if mant = pow2 52 \<and> - 1074 < p then (4 * mant - 1) * pow2 p
                   else (4 * mant - 2) * pow2 p);
          (ds, dp) = exactDecimal mant p;
          udp = snd (exactDecimal (2 * mant + 1) (p - 1));
          (N, j) = shortestWalk lower upper den (even mant) 0 (udp - 1)
                     (if dp < udp then 0 # ds else ds);
          out = digitsOf N
      in (trimZeros out, int (length out) + j))"

definition digitAt :: "int list \<Rightarrow> int \<Rightarrow> char" where
  "digitAt ds i = (if 0 \<le> i \<and> i < int (length ds) then digitChar (ds ! nat i) else CHR ''0'')"

definition fmtE :: "int list \<Rightarrow> int \<Rightarrow> string" where
  "fmtE ds dp =
     (let ex = (if ds = [] then 0 else dp - 1);
          frac = (if 1 < length ds then CHR ''.'' # map digitChar (tl ds) else [])
      in digitAt ds 0 # frac @ ''e'' @ (if ex < 0 then ''-'' else ''+'')
           @ (if \<bar>ex\<bar> < 10 then ''0'' else '''') @ itoa \<bar>ex\<bar>)"

definition fmtF :: "int list \<Rightarrow> int \<Rightarrow> string" where
  "fmtF ds dp =
     (let prec = max (int (length ds) - dp) 0;
          ipart = (if 0 < dp then map (digitAt ds) [0..dp - 1] else ''0'');
          frac = (if 0 < prec then CHR ''.'' # map (\<lambda>i. digitAt ds (dp + i)) [0..prec - 1]
                  else [])
      in ipart @ frac)"

definition fmt_g :: "float64 \<Rightarrow> string" where
  "fmt_g f =
     (case f of Float64 neg mant p \<Rightarrow>
        (let (ds, dp) = (if mant = 0 then ([], 0) else shortestDigits mant p);
             ex = dp - 1
         in (if neg then ''-'' else '''')
              @ (if ex < - 4 \<or> 6 \<le> ex then fmtE ds dp else fmtF ds dp)))"

section \<open>\<open>encoding/json\<close>: decoding a line into \<open>map[string]interface{}\<close>\<close>

text \<open>
  The values \<open>json.Unmarshal\<close> stores in an \<open>interface{}\<close>: \<open>nil\<close>, \<open>bool\<close>,
  \<open>float64\<close>, \<open>string\<close>, \<open>[]interface{}\<close> and \<open>map[string]interface{}\<close>.  A Go map
  is kept as an association list with distinct keys; the order of the list has no
  meaning in Go and is never observed by the model except through \<open>range\<close>, which
  may visit the entries in any order (see below).
\<close>

datatype jvalue =
    JNil
  | JBool bool
  | JFloat float64
  | JString string
  | JArray "jvalue list"
  | JMap "(string \<times> jvalue) list"

subsection \<open>Strings\<close>

text \<open>\<open>utf8.EncodeRune\<close>; a surrogate or a value out of range is encoded as \<open>RuneError\<close>.\<close>

definition EncodeRune :: "rune \<Rightarrow> string" where
  "EncodeRune r0 =
     (let r = (if r0 < 0 \<or> 0x10FFFF < r0 \<or> (0xD800 \<le> r0 \<and> r0 \<le> 0xDFFF) then RuneError
               else r0)
      in if r < 0x80 then [char_of r]
         else if r < 0x800 then [char_of (0xC0 + r div 0x40), char_of (0x80 + r mod 0x40)]
         else if r < 0x10000
           then [char_of (0xE0 + r div 0x1000), char_of (0x80 + r div 0x40 mod 0x40),
                 char_of (0x80 + r mod 0x40)]
         else [char_of (0xF0 + r div 0x40000), char_of (0x80 + r div 0x1000 mod 0x40),
               char_of (0x80 + r div 0x40 mod 0x40), char_of (0x80 + r mod 0x40)])"

definition hexVal :: "char \<Rightarrow> int option" where
  "hexVal c =
     (let b = (of_char c :: int)
      in if 48 \<le> b \<and> b \<le> 57 then Some (b - 48)
         else if 97 \<le> b \<and> b \<le> 102 then Some (b - 87)
         else if 65 \<le> b \<and> b \<le> 70 then Some (b - 55)
         else None)"

text \<open>\<open>getu4\<close>: the code unit of a \<open>\uXXXX\<close> escape at the head of the string.\<close>

definition getu4 :: "string \<Rightarrow> rune option" where
  "getu4 s =
     (case s of
        b # u # h1 # h2 # h3 # h4 # _ \<Rightarrow>
          if b = CHR 0x5C \<and> u = CHR ''u''
          then (case (hexVal h1, hexVal h2, hexVal h3, hexVal h4) of
                  (Some a, Some b, Some c, Some d) \<Rightarrow> Some (((a * 16 + b) * 16 + c) * 16 + d)
                | _ \<Rightarrow> None)
          else None
      | _ \<Rightarrow> None)"

definition escapeChar :: "char \<Rightarrow> char option" where
  "escapeChar e =
     (if e = CHR 0x22 \<or> e = CHR 0x5C \<or> e = CHR ''/'' then Some e
      else if e = CHR ''b'' then Some (CHR 0x08)
      else if e = CHR ''f'' then Some (CHR 0x0C)
      else if e = CHR ''n'' then Some (CHR 0x0A)
      else if e = CHR ''r'' then Some (CHR 0x0D)
      else if e = CHR ''t'' then Some (CHR 0x09)
      else None)"

text \<open>
  The scanner's check of a string literal, from the byte after the opening quote:
  the raw bytes up to the closing quote and the rest of the input.  Control
  characters and malformed escapes are syntax errors.
\<close>

fun scanString :: "string \<Rightarrow> string \<Rightarrow> (string \<times> string) option" where
  "scanString acc [] = None"
| "scanString acc (c # cs) =
     (if c = CHR 0x22 then Some (rev acc, cs)
      else if c = CHR 0x5C then
        (case cs of
           [] \<Rightarrow> None
         | e # es \<Rightarrow>
             if e = CHR ''u'' then
               (case es of
                  h1 # h2 # h3 # h4 # r \<Rightarrow>
                    if getu4 (c # cs) = None then None
                    else scanString (h4 # h3 # h2 # h1 # e # c # acc) r
                | _ \<Rightarrow> None)
             else if escapeChar e = None then None
             else scanString (e # c # acc) es)
      else if (of_char c :: int) < 0x20 then None
      else scanString (c # acc) cs)"

text \<open>
  \<open>unquote\<close>: the string a checked literal denotes.  A \<open>\u\<close> escape of a surrogate
  needs the matching second escape, otherwise it becomes U+FFFD; bytes that are not
  valid UTF-8 become U+FFFD as well.
\<close>

function unquote :: "string \<Rightarrow> string option" where
  "unquote [] = Some []"
| "unquote (c # cs) =
     (if c = CHR 0x5C then
        (case cs of
           [] \<Rightarrow> None
         | e # es \<Rightarrow>
             if e = CHR ''u'' then
               (case getu4 (c # cs) of
                  None \<Rightarrow> None
                | Some rr \<Rightarrow>
                    if 0xD800 \<le> rr \<and> rr < 0xE000 then
                      (case getu4 (drop 4 es) of
                         None \<Rightarrow> map_option ((@) (EncodeRune RuneError)) (unquote (drop 4 es))
                       | Some rr1 \<Rightarrow>
                           if rr < 0xDC00 \<and> 0xDC00 \<le> rr1 \<and> rr1 < 0xE000
                           then map_option
                                  ((@) (EncodeRune
                                         ((rr - 0xD800) * 0x400 + (rr1 - 0xDC00) + 0x10000)))
                                  (unquote (drop 10 es))
                           else map_option ((@) (EncodeRune RuneError)) (unquote (drop 4 es)))
                    else map_option ((@) (EncodeRune rr)) (unquote (drop 4 es)))
             else (case escapeChar e of
                     None \<Rightarrow> None
                   | Some b \<Rightarrow> map_option ((#) b) (unquote es)))
      else if c = CHR 0x22 \<or> (of_char c :: int) < 0x20 then None
      else if (of_char c :: int) < 0x80 then map_option ((#) c) (unquote cs)
      else (case decodeRune (c # cs) of
              (rr, w) \<Rightarrow> map_option ((@) (EncodeRune rr)) (unquote (drop w (c # cs)))))"
  by pat_completeness auto
termination
  by (relation "measure length") (auto dest: decodeRune_drop)

subsection \<open>Numbers\<close>

definition scanFrac :: "string \<Rightarrow> (string \<times> string) option" where
  "scanFrac s =
     (case s of
        [] \<Rightarrow> Some ([], s)
      | c # t \<Rightarrow>
          if c = CHR ''.''
          then (if takeWhile isDigit t = [] then None
                else Some (takeWhile isDigit t, dropWhile isDigit t))
          else Some ([], s))"

definition scanExp :: "string \<Rightarrow> (int \<times> string) option" where
  "scanExp s =
     (case s of
        [] \<Rightarrow> Some (0, s)
      | c # t \<Rightarrow>
          if c = CHR ''e'' \<or> c = CHR ''E''
          then (let (sg, t1) =
                      (case t of
                         [] \<Rightarrow> (1, t)
                       | d # u \<Rightarrow> if d = CHR ''+'' then (1, u)
                                  else if d = CHR ''-'' then (- 1, u) else (1, t))
                in if takeWhile isDigit t1 = [] then None
                   else Some (sg * atoi (takeWhile isDigit t1), dropWhile isDigit t1))
          else Some (0, s))"

text \<open>
  A number literal at the head of the input, split into sign, integer digits,
  fraction digits and exponent, and the rest of the input.  A leading zero cannot be
  followed by a digit.
\<close>

definition scanNumber :: "string \<Rightarrow> ((bool \<times> string \<times> string \<times> int) \<times> string) option" where
  "scanNumber s =
     (let neg = (take 1 s = ''-'');
          s1 = (if neg then drop 1 s else s);
          ip = takeWhile isDigit s1
      in if ip = [] \<or> (take 1 ip = ''0'' \<and> 1 < length ip) then None
         else (case scanFrac (dropWhile isDigit s1) of
                 None \<Rightarrow> None
               | Some (fp, s3) \<Rightarrow>
                   (case scanExp s3 of
                      None \<Rightarrow> None
                    | Some (ex, s4) \<Rightarrow> Some ((neg, ip, fp, ex), s4))))"

subsection \<open>Tokens\<close>

datatype token =
    TLBrace | TRBrace | TLBracket | TRBracket | TComma | TColon
  | TString string
  | TNumber "bool \<times> string \<times> string \<times> int"
  | TTrue | TFalse | TNull

definition isWS :: "char \<Rightarrow> bool" where
  "isWS c \<longleftrightarrow> c = CHR '' '' \<or> c = CHR 0x09 \<or> c = CHR 0x0D \<or> c = CHR 0x0A"

definition punct :: "char \<Rightarrow> token option" where
  "punct c =
     (if c = CHR ''{'' then Some TLBrace
      else if c = CHR ''}'' then Some TRBrace
      else if c = CHR ''['' then Some TLBracket
      else if c = CHR '']'' then Some TRBracket
      else if c = CHR '','' then Some TComma
      else if c = CHR '':'' then Some TColon
      else None)"

lemma scanString_length:
  "scanString acc s = Some (raw, rest) \<Longrightarrow> length rest \<le> length s"
  by (induction acc s rule: scanString.induct)
     (fastforce split: if_splits list.splits)+

lemma scanFrac_length: "scanFrac s = Some (fp, rest) \<Longrightarrow> length rest \<le> length s"
  by (auto simp: scanFrac_def split: list.splits if_splits
           intro: le_trans [OF length_dropWhile_le])

lemma scanExp_length: "scanExp s = Some (ex, rest) \<Longrightarrow> length rest \<le> length s"
  by (auto simp: scanExp_def Let_def split: list.splits if_splits
           intro: le_trans [OF length_dropWhile_le])

lemma dropWhile_shorter: "takeWhile P xs \<noteq> [] \<Longrightarrow> length (dropWhile P xs) < length xs"
  by (cases xs) (auto intro: le_imp_less_Suc length_dropWhile_le split: if_splits)

lemma scanNumber_length:
  assumes "scanNumber s = Some (num, rest)"
  shows "length rest < length s"
proof -
  let ?s1 = "if take 1 s = ''-'' then drop 1 s else s"
  from assms obtain fp s3 ex where
    ip: "takeWhile isDigit ?s1 \<noteq> []" and
    fr: "scanFrac (dropWhile isDigit ?s1) = Some (fp, s3)" and
    ex: "scanExp s3 = Some (ex, rest)"
    by (auto simp: scanNumber_def Let_def split: if_splits option.splits)
  have "length rest \<le> length s3" using ex by (rule scanExp_length)
  also have "\<dots> \<le> length (dropWhile isDigit ?s1)" using fr by (rule scanFrac_length)
  also have "\<dots> < length ?s1" using ip by (rule dropWhile_shorter)
  also have "\<dots> \<le> length s" by simp
  finally show ?thesis .
qed

text \<open>The tokens of a line; \<open>None\<close> when some byte starts no token.\<close>

function lex :: "string \<Rightarrow> token list option" where
  "lex [] = Some []"
| "lex (c # cs) =
     (if isWS c then lex cs
      else
        (case punct c of
           Some t \<Rightarrow> map_option ((#) t) (lex cs)
         | None \<Rightarrow>
             if c = CHR 0x22 then
               (case scanString [] cs of
                  None \<Rightarrow> None
                | Some (raw, rest) \<Rightarrow> map_option ((#) (TString raw)) (lex rest))
             else if c = CHR ''-'' \<or> isDigit c then
               (case scanNumber (c # cs) of
                  None \<Rightarrow> None
                | Some (num, rest) \<Rightarrow> map_option ((#) (TNumber num)) (lex rest))
             else if take 4 (c # cs) = ''true'' then map_option ((#) TTrue) (lex (drop 3 cs))
             else if take 5 (c # cs) = ''false'' then map_option ((#) TFalse) (lex (drop 4 cs))
             else if take 4 (c # cs) = ''null'' then map_option ((#) TNull) (lex (drop 3 cs))
             else None))"
  by pat_completeness auto
termination
  by (relation "measure length")
     (auto dest: scanString_length scanNumber_length)

subsection \<open>The decoder\<close>

text \<open>
  The decoder is a pushdown automaton over the tokens.  A frame of the stack is an
  array or an object under construction; \<open>FKey\<close> is an object whose next key has been
  read and whose value is awaited.  The phase says which tokens may come next.
  Storing a key that is already present overwrites its value, as assignment to a Go
  map does.  The scanner refuses more than 10000 open arrays and objects.
\<close>

datatype frame =
    FArray "jvalue list"
  | FObject "(string \<times> jvalue) list"
  | FKey "(string \<times> jvalue) list" string

datatype phase =
    PValue | PValueOrEnd | PKeyOrEnd | PKey | PColon | PCommaOrEnd
  | PDone jvalue

definition maxNestingDepth :: int where
  "maxNestingDepth = 10000"

definition complete :: "jvalue \<Rightarrow> frame list \<Rightarrow> (frame list \<times> phase) option" where
  "complete v st =
     (case st of
        [] \<Rightarrow> Some ([], PDone v)
      | FArray items # st' \<Rightarrow> Some (FArray (items @ [v]) # st', PCommaOrEnd)
      | FKey es k # st' \<Rightarrow> Some (FObject (AList.update k v es) # st', PCommaOrEnd)
      | FObject es # st' \<Rightarrow> None)"

definition closeFrame :: "token \<Rightarrow> frame list \<Rightarrow> (frame list \<times> phase) option" where
  "closeFrame t st =
     (case (t, st) of
        (TRBracket, FArray items # st') \<Rightarrow> complete (JArray items) st'
      | (TRBrace, FObject es # st') \<Rightarrow> complete (JMap es) st'
      | _ \<Rightarrow> None)"

definition startValue :: "token \<Rightarrow> frame list \<Rightarrow> (frame list \<times> phase) option" where
  "startValue t st =
     (case t of
        TLBrace \<Rightarrow>
          if int (length st) < maxNestingDepth then Some (FObject [] # st, PKeyOrEnd) else None
      | TLBracket \<Rightarrow>
          if int (length st) < maxNestingDepth then Some (FArray [] # st, PValueOrEnd) else None
      | TString raw \<Rightarrow>
          (case unquote raw of None \<Rightarrow> None | Some s \<Rightarrow> complete (JString s) st)
      | TNumber (neg, ip, fp, ex) \<Rightarrow>
          (case ParseFloat neg ip fp ex of None \<Rightarrow> None | Some f \<Rightarrow> complete (JFloat f) st)
      | TTrue \<Rightarrow> complete (JBool True) st
      | TFalse \<Rightarrow> complete (JBool False) st
      | TNull \<Rightarrow> complete JNil st
      | _ \<Rightarrow> None)"

definition readKey :: "token \<Rightarrow> frame list \<Rightarrow> (frame list \<times> phase) option" where
  "readKey t st =
     (case (t, st) of
        (TString raw, FObject es # st') \<Rightarrow>
          (case unquote raw of None \<Rightarrow> None | Some k \<Rightarrow> Some (FKey es k # st', PColon))
      | _ \<Rightarrow> None)"

definition step :: "token \<Rightarrow> frame list \<times> phase \<Rightarrow> (frame list \<times> phase) option" where
  "step t s =
     (case s of (st, ph) \<Rightarrow>
        (case ph of
           PValue \<Rightarrow> startValue t st
         | PValueOrEnd \<Rightarrow> if t = TRBracket then closeFrame t st else startValue t st
         | PKeyOrEnd \<Rightarrow> if t = TRBrace then closeFrame t st else readKey t st
         | PKey \<Rightarrow> readKey t st
         | PColon \<Rightarrow> if t = TColon then Some (st, PValue) else None
         | PCommaOrEnd \<Rightarrow>
             if t = TComma
             then (case st of
                     FArray items # st' \<Rightarrow> Some (st, PValue)
                   | FObject es # st' \<Rightarrow> Some (st, PKey)
                   | _ \<Rightarrow> None)
             else closeFrame t st
         | PDone v \<Rightarrow> None))"

fun run :: "token list \<Rightarrow> frame list \<times> phase \<Rightarrow> jvalue option" where
  "run [] s = (case snd s of PDone v \<Rightarrow> Some v | _ \<Rightarrow> None)"
| "run (t # ts) s = (case step t s of None \<Rightarrow> None | Some s' \<Rightarrow> run ts s')"

text \<open>
  \<open>decode\<close>: the value of a JSON text, \<open>None\<close> when the text is not valid JSON or a
  number in it is out of the range of \<open>float64\<close> (both make \<open>Unmarshal\<close> return an
  error).
\<close>

definition decode :: "string \<Rightarrow> jvalue option" where
  "decode data = (case lex data of None \<Rightarrow> None | Some ts \<Rightarrow> run ts ([], PValue))"

text \<open>
  \<open>json.Unmarshal([]byte(line), &logEntry)\<close> with \<open>logEntry\<close> a nil
  \<open>map[string]interface{}\<close>: an object fills a fresh map, \<open>null\<close> leaves the map nil
  without error, every other value is an \<open>UnmarshalTypeError\<close>.  \<open>None\<close> is the nil map.
\<close>

datatype json_error = SyntaxOrRangeError | UnmarshalTypeError

type_synonym gomap = "(string \<times> jvalue) list option"

definition Unmarshal :: "string \<Rightarrow> json_error + gomap" where
  "Unmarshal data =
     (case decode data of
        None \<Rightarrow> Inl SyntaxOrRangeError
      | Some (JMap es) \<Rightarrow> Inr (Some es)
      | Some JNil \<Rightarrow> Inr None
      | Some _ \<Rightarrow> Inl UnmarshalTypeError)"

text \<open>Reading a key of a map; a nil map has no keys.\<close>

definition mapIndex :: "gomap \<Rightarrow> string \<Rightarrow> jvalue option" where
  "mapIndex m k = (case m of None \<Rightarrow> None | Some es \<Rightarrow> map_of es k)"

subsection \<open>The verb \<open>%v\<close>\<close>

definition joinSp :: "string list \<Rightarrow> string" where
  "joinSp xs = (case xs of [] \<Rightarrow> [] | x # r \<Rightarrow> x @ concat (map ((@) '' '') r))"

text \<open>
  \<open>%v\<close> prints a slice as \<open>[a b c]\<close> and a map as \<open>map[k:v k:v]\<close> with the keys
  sorted.
\<close>

fun fmt_v :: "jvalue \<Rightarrow> string" where
  "fmt_v JNil = ''<nil>''"
| "fmt_v (JBool b) = (if b then ''true'' else ''false'')"
| "fmt_v (JFloat f) = fmt_g f"
| "fmt_v (JString s) = s"
| "fmt_v (JArray xs) = ''['' @ joinSp (map fmt_v xs) @ '']''"
| "fmt_v (JMap es) =
     ''map['' @ joinSp (map (\<lambda>e. fst e @ '':'' @ fmt_v (snd e)) (sort_key fst es)) @ '']''"

section \<open>The log extractor\<close>

text \<open>
  \<open>range\<close> over a Go map visits every entry once, in an order the language leaves
  unspecified (and the runtime randomises).  The model takes every order into
  account: \<open>perms m\<close> lists all the orders in which the entries of \<open>m\<close> can be
  visited.
\<close>

fun interleave :: "'a \<Rightarrow> 'a list \<Rightarrow> 'a list list" where
  "interleave x [] = [[x]]"
| "interleave x (y # ys) = (x # y # ys) # map ((#) y) (interleave x ys)"

fun perms :: "'a list \<Rightarrow> 'a list list" where
  "perms [] = [[]]"
| "perms (x # xs) = concat (map (interleave x) (perms xs))"

text \<open>The map literal \<open>messageTypes\<close>: the three watched keys, each bound to nil.\<close>

definition messageTypes :: "(string \<times> gomap) list" where
  "messageTypes =
     [(''connecting to bootstrap'', None),
      (''broadcasting self-test info'', None),
      (''peers in store'', None)]"

text \<open>
  The body of the first loop, for one line: a line that does not unmarshal, or whose
  \<open>msg\<close> is not a string, is skipped (\<open>continue\<close>); otherwise the entry is stored
  under its \<open>msg\<close> if that is a key of the map.
\<close>

definition storeLine :: "(string \<times> gomap) list \<Rightarrow> string \<Rightarrow> (string \<times> gomap) list" where
  "storeLine mt line =
     (case Unmarshal line of
        Inl err \<Rightarrow> mt
      | Inr logEntry \<Rightarrow>
          (case mapIndex logEntry ''msg'' of
             Some (JString msg) \<Rightarrow>
               if map_of mt msg \<noteq> None then AList.update msg logEntry mt else mt
           | _ \<Rightarrow> mt))"

definition collect :: "string list \<Rightarrow> (string \<times> gomap) list" where
  "collect lines = foldl storeLine messageTypes lines"

text \<open>The four \<open>delete\<close> calls.\<close>

definition omitKeys :: "(string \<times> jvalue) list \<Rightarrow> (string \<times> jvalue) list" where
  "omitKeys logEntry =
     AList.delete ''msg'' (AList.delete ''caller'' (AList.delete ''ts''
       (AList.delete ''level'' logEntry)))"

text \<open>
  The body of the inner loop: the type switch on the value.  The decoder produces
  no \<open>int\<close> or \<open>int64\<close>, so that case of the switch has no counterpart.
\<close>

definition writeField :: "string \<times> jvalue \<Rightarrow> string" where
  "writeField kv =
     (case kv of (key, value) \<Rightarrow>
        if key \<noteq> ''msg''
        then (case value of
                JFloat v \<Rightarrow> ''; '' @ key @ '': '' @ fmt_f0 v
              | _ \<Rightarrow> ''; '' @ key @ '': '' @ fmt_v value)
        else [])"

text \<open>What one iteration of the outer loop writes, the fields visited in the given order.\<close>

definition writeEntry :: "string \<Rightarrow> (string \<times> jvalue) list \<Rightarrow> string" where
  "writeEntry msg fields =
     ''{ msg: '' @ msg @ concat (map writeField fields) @ '' }'' @ [newline]"

text \<open>
  The second loop over the keys in a given visiting order, started with the text
  written so far: all the texts the builder can hold at the end, one for each choice
  of the orders in which the fields of the entries are visited.
\<close>

fun writeEntries :: "(string \<times> gomap) list \<Rightarrow> string \<Rightarrow> string list" where
  "writeEntries [] result = [result]"
| "writeEntries ((msg, logEntry) # rest) result =
     (case logEntry of
        None \<Rightarrow> writeEntries rest result
      | Some e \<Rightarrow>
          concat (map (\<lambda>fields. writeEntries rest (result @ writeEntry msg fields))
                    (perms (omitKeys e))))"

definition outputs :: "(string \<times> gomap) list \<Rightarrow> string list" where
  "outputs mt = concat (map (\<lambda>order. writeEntries order []) (perms mt))"

text \<open>
  \<open>extractLogMessages logs\<close> is the set of strings the Go function can return on
  \<open>logs\<close>.  It never fails.
\<close>

definition extractFromLines :: "string list \<Rightarrow> string set" where
  "extractFromLines lines = set (outputs (collect lines))"

definition extractLogMessages :: "string \<Rightarrow> string set" where
  "extractLogMessages logs = extractFromLines (Split newline logs)"

section \<open>Polling the nodes\<close>

record Node =
  IP :: string
  Username :: string
  Password :: string

record Config =
  Nodes :: "Node list"

text \<open>
  The two implementations of the interface \<open>LogReader\<close>, and the command each
  \<open>ReadLogs\<close> method builds with \<open>Sprintf\<close>.
\<close>

datatype LogReader = ServiceLogReader string | TmuxLogReader string

definition sq :: char where
  "sq = CHR 0x27"

definition grepFilter :: string where
  \<open>grepFilter =
     ''grep -E '' @ [sq] @
     ''"msg":"(connecting to bootstrap|broadcasting self-test info|peers in store)"'' @ [sq]\<close>

definition readLogsCommand :: "LogReader \<Rightarrow> string" where
  "readLogsCommand r =
     (case r of
        ServiceLogReader ServiceName \<Rightarrow>
          ''journalctl -u '' @ ServiceName @ ''.service -n 50 --no-hostname -o cat | ''
            @ grepFilter
      | TmuxLogReader PaneName \<Rightarrow>
          ''tmux capture-pane -t '' @ PaneName @ '' -pS -100 | '' @ grepFilter
            @ '' | tail -n 200'')"

text \<open>
  The secure-shell transport is outside the program.  Its answers are parameters of
  the model: \<open>dial\<close> is the error of \<open>ssh.Dial\<close> for a node (\<open>None\<close> on success),
  \<open>newSession node n\<close> the error of the \<open>n\<close>-th call of \<open>conn.NewSession\<close>, and
  \<open>runCmd node cmd\<close> the outcome of \<open>session.Run(cmd)\<close>: the error text or the
  captured standard output.
\<close>

record remote =
  dial :: "Node \<Rightarrow> string option"
  newSession :: "Node \<Rightarrow> nat \<Rightarrow> string option"
  runCmd :: "Node \<Rightarrow> string \<Rightarrow> string + string"

text \<open>Go's pair \<open>(value, error)\<close>.\<close>

datatype 'a result = Ok 'a | Err string

definition runError :: "string \<Rightarrow> string \<Rightarrow> string" where
  "runError cmd err = ''failed to run command '' @ [sq] @ cmd @ [sq] @ '': '' @ err"

definition ReadLogs :: "remote \<Rightarrow> Node \<Rightarrow> LogReader \<Rightarrow> string list \<times> string result" where
  "ReadLogs env node r =
     (let cmd = readLogsCommand r
      in case runCmd env node cmd of
           Inl err \<Rightarrow> ([cmd], Err (runError cmd err))
         | Inr out \<Rightarrow> ([cmd], Ok out))"

definition statsCommands :: "string list" where
  "statsCommands =
     [''top -b -n 1 | grep '' @ [sq] @ ''Cpu(s)'' @ [sq], ''free -m'', ''df -h /'']"

text \<open>
  \<open>formatOutput\<close>.  The parsers may panic; the text of the logs is any of the texts
  \<open>extractLogMessages\<close> may return.
\<close>

definition formatOutput :: "string \<Rightarrow> string list \<Rightarrow> (panic + string) set" where
  "formatOutput ip stats =
     (case index stats 0 of
        Inl p \<Rightarrow> {Inl p}
      | Inr s0 \<Rightarrow>
     (case parseCPUUsage s0 of
        Inl p \<Rightarrow> {Inl p}
      | Inr cpuUsage \<Rightarrow>
     (case index stats 1 of
        Inl p \<Rightarrow> {Inl p}
      | Inr s1 \<Rightarrow>
     (case parseMemoryUsage s1 of
        Inl p \<Rightarrow> {Inl p}
      | Inr memoryUsage \<Rightarrow>
     (case index stats 2 of
        Inl p \<Rightarrow> {Inl p}
      | Inr s2 \<Rightarrow>
     (case index stats 3 of
        Inl p \<Rightarrow> {Inl p}
      | Inr s3 \<Rightarrow>
          (\<lambda>logs.
             Inr (''[blue::b]Node: '' @ ip @ [newline]
                  @ ''[green::b]CPU Usage: [white]'' @ cpuUsage @ [newline]
                  @ ''[green::b]Memory Usage: [white]'' @ memoryUsage @ [newline]
                  @ ''[green::b]Storage Usage:'' @ [newline] @ '' [white]'' @ s2
                  @ ''[yellow::b]Logs: [white]'' @ logs))
            ` extractLogMessages s3))))))"

text \<open>
  The loop of \<open>getNodeStatus\<close> over the stats commands: \<open>n\<close> sessions have been
  created so far.  The first component of the result lists the commands that were
  run, the second is the list \<open>stats\<close> or the error returned.
\<close>

fun runStats :: "remote \<Rightarrow> Node \<Rightarrow> string list \<Rightarrow> nat \<Rightarrow> string list
                   \<Rightarrow> string list \<times> string list result" where
  "runStats env node [] n stats = ([], Ok stats)"
| "runStats env node (cmd # cmds) n stats =
     (case newSession env node n of
        Some err \<Rightarrow> ([], Err (''failed to create session: '' @ err))
      | None \<Rightarrow>
          (case runCmd env node cmd of
             Inl err \<Rightarrow> ([cmd], Err (runError cmd err))
           | Inr out \<Rightarrow>
               (case runStats env node cmds (Suc n) (stats @ [out]) of
                  (issued, r) \<Rightarrow> (cmd # issued, r))))"

text \<open>
  \<open>getNodeStatus\<close>: the commands run on the node, and the possible outcomes: a panic,
  an error, or the formatted status.
\<close>

definition getNodeStatus ::
    "remote \<Rightarrow> Node \<Rightarrow> LogReader \<Rightarrow> string list \<times> (panic + string result) set" where
  "getNodeStatus env node logReader =
     (case dial env node of
        Some err \<Rightarrow> ([], {Inr (Err (''failed to dial: '' @ err))})
      | None \<Rightarrow>
          (case runStats env node statsCommands 0 [] of
             (issued, Err e) \<Rightarrow> (issued, {Inr (Err e)})
           | (issued, Ok stats) \<Rightarrow>
               (case newSession env node (length statsCommands) of
                  Some err \<Rightarrow> (issued, {Inr (Err (''failed to create session: '' @ err))})
                | None \<Rightarrow>
                    (case ReadLogs env node logReader of
                       (issued', Err e) \<Rightarrow>
                         (issued @ issued', {Inr (Err (''failed to read logs: '' @ e))})
                     | (issued', Ok logs) \<Rightarrow>
                         (issued @ issued', map_sum id Ok ` formatOutput (IP node) (stats @ [logs]))))))"

text \<open>
  What a node's goroutine does to the display: \<open>SetText i text\<close> is the direct call
  \<open>textViews[i].SetText(text)\<close>, \<open>QueueUpdateDraw i text\<close> the call of
  \<open>app.QueueUpdateDraw\<close> with a function that calls \<open>textViews[i].SetText(text)\<close>
  again.  A goroutine whose stat parsers panic displays nothing.
\<close>

datatype event = SetText nat string | QueueUpdateDraw nat string

definition display :: "nat \<Rightarrow> string \<Rightarrow> event list" where
  "display i text = [SetText i text, QueueUpdateDraw i text]"

definition nodeTask :: "remote \<Rightarrow> nat \<Rightarrow> Node \<Rightarrow> (string list \<times> (panic + event list)) set" where
  "nodeTask env i node =
     (let logReader = ServiceLogReader ''ceremonyclient''
      in case getNodeStatus env node logReader of
           (issued, outcomes) \<Rightarrow>
             (\<lambda>outcome.
                (issued,
                 case outcome of
                   Inl p \<Rightarrow> Inl p
                 | Inr (Err err) \<Rightarrow>
                     Inr (display i (''Error fetching status for node '' @ IP node @ '': '' @ err))
                 | Inr (Ok output) \<Rightarrow> Inr (display i output)))
               ` outcomes)"

text \<open>
  One cycle of the polling loop starts one goroutine for each node of the
  configuration and waits for all of them.  The goroutines share nothing but the
  display.  No goroutine recovers from a panic, so a panic in any of them ends the
  whole process, and the other goroutines are cut off wherever they are.  The
  process also ends, with the same effect on the goroutines, when \<open>app.Run\<close>
  returns in \<open>main\<close>.

  A cycle is described by what each goroutine was seen to do, in the order of the
  nodes: the commands it ran and its calls on the display.  \<open>Completed\<close> is a cycle
  in which every goroutine ran to its end, \<open>Crashed p\<close> a cycle ended by the panic
  \<open>p\<close> of one of its goroutines, and \<open>Stopped\<close> a cycle during which \<open>main\<close>
  returned.  In the definition of \<open>pollCycle\<close>, \<open>bs ! i\<close> is what goroutine \<open>i\<close>
  does when nothing stops it.  The goroutine that panics has run all its commands
  and displayed nothing; of a goroutine that is cut off an initial part is seen, the
  calls on the display coming after the commands.
\<close>

datatype cycle =
    Completed "(string list \<times> event list) list"
  | Crashed panic "(string list \<times> event list) list"
  | Stopped "(string list \<times> event list) list"

definition finished :: "string list \<times> (panic + event list) \<Rightarrow> string list \<times> event list \<Rightarrow> bool" where
  "finished b obs \<longleftrightarrow> snd b = Inr (snd obs) \<and> fst obs = fst b"

definition cutOff :: "string list \<times> (panic + event list) \<Rightarrow> string list \<times> event list \<Rightarrow> bool" where
  "cutOff b obs \<longleftrightarrow>
     prefix (fst obs) (fst b) \<and>
     prefix (snd obs) (case snd b of Inl p \<Rightarrow> [] | Inr evs \<Rightarrow> evs) \<and>
     (snd obs \<noteq> [] \<longrightarrow> fst obs = fst b)"

definition pollCycle :: "remote \<Rightarrow> Config \<Rightarrow> cycle set" where
  "pollCycle env config =
     {c. \<exists>bs. length bs = length (Nodes config) \<and>
              (\<forall>i < length bs. bs ! i \<in> nodeTask env i (Nodes config ! i)) \<and>
              ((\<exists>obs. c = Completed obs \<and> list_all2 finished bs obs) \<or>
               (\<exists>p obs i. c = Crashed p obs \<and> i < length bs \<and> snd (bs ! i) = Inl p \<and>
                          list_all2 cutOff bs obs \<and> obs ! i = (fst (bs ! i), [])) \<or>
               (\<exists>obs. c = Stopped obs \<and> list_all2 cutOff bs obs))}"

text \<open>What the goroutines of a cycle were seen to do, in the order of the nodes.\<close>

definition observed :: "cycle \<Rightarrow> (string list \<times> event list) list" where
  "observed c = (case c of Completed obs \<Rightarrow> obs | Crashed p obs \<Rightarrow> obs | Stopped obs \<Rightarrow> obs)"

text \<open>The number of times \<open>SetText\<close> is called on slot \<open>i\<close>, directly or from the queue.\<close>

definition setTextCalls :: "nat \<Rightarrow> event list \<Rightarrow> nat" where
  "setTextCalls i evs =
     length (filter (\<lambda>ev. case ev of SetText j t \<Rightarrow> j = i | QueueUpdateDraw j t \<Rightarrow> j = i) evs)"

section \<open>Notions used to state the properties\<close>

text \<open>
  The record of a line: its \<open>msg\<close> and its fields, when the line unmarshals to a
  map whose \<open>msg\<close> is a string.  These are the lines the first loop does not skip.
\<close>

definition lineRecord :: "string \<Rightarrow> (string \<times> (string \<times> jvalue) list) option" where
  "lineRecord line =
     (case Unmarshal line of
        Inr (Some e) \<Rightarrow>
          (case map_of e ''msg'' of Some (JString msg) \<Rightarrow> Some (msg, e) | _ \<Rightarrow> None)
      | _ \<Rightarrow> None)"

text \<open>
  \<open>latest k ls\<close>: the fields of the last line of \<open>ls\<close> whose record has the message
  \<open>k\<close>, nil when there is none.
\<close>

fun latest :: "string \<Rightarrow> string list \<Rightarrow> gomap" where
  "latest k [] = None"
| "latest k (l # ls) =
     (case latest k ls of
        Some e \<Rightarrow> Some e
      | None \<Rightarrow>
          (case lineRecord l of
             Some (msg, e) \<Rightarrow> if msg = k then Some e else None
           | None \<Rightarrow> None))"

definition watchedKeys :: "string list" where
  "watchedKeys = map fst messageTypes"

text \<open>
  The keys that have an entry after the first loop, with their entries.
\<close>

fun stored :: "(string \<times> gomap) list \<Rightarrow> (string \<times> (string \<times> jvalue) list) list" where
  "stored [] = []"
| "stored ((msg, None) # rest) = stored rest"
| "stored ((msg, Some e) # rest) = (msg, e) # stored rest"

text \<open>
  A visit of the second loop is a key together with its fields in the order in which
  the inner loop went through them: some order of the entry without the omitted
  keys.  \<open>visits mt\<close> are the sequences of visits the second loop can make on the map
  \<open>mt\<close>, and \<open>render\<close> is the text written along such a sequence.
\<close>

definition visitOf :: "string \<times> (string \<times> jvalue) list \<Rightarrow> string \<times> (string \<times> jvalue) list \<Rightarrow> bool" where
  "visitOf v s \<longleftrightarrow> fst v = fst s \<and> mset (snd v) = mset (omitKeys (snd s))"

definition render :: "(string \<times> (string \<times> jvalue) list) list \<Rightarrow> string" where
  "render vis = concat (map (\<lambda>v. writeEntry (fst v) (snd v)) vis)"

definition visits :: "(string \<times> gomap) list \<Rightarrow> (string \<times> (string \<times> jvalue) list) list set" where
  "visits mt = {vis. \<exists>order. mset order = mset mt \<and> list_all2 visitOf vis (stored order)}"

text \<open>
  The two \<open>continue\<close> statements of the first loop: the line does not unmarshal, or
  its \<open>msg\<close> is absent or not a string.
\<close>

definition skipped :: "string \<Rightarrow> bool" where
  "skipped line \<longleftrightarrow>
     (case Unmarshal line of
        Inl err \<Rightarrow> True
      | Inr logEntry \<Rightarrow>
          (case mapIndex logEntry ''msg'' of Some (JString msg) \<Rightarrow> False | _ \<Rightarrow> True))"

text \<open>
  \<open>strings.Join\<close> for a separator of one byte: the sample made of the given lines.
\<close>

fun Join :: "char \<Rightarrow> string list \<Rightarrow> string" where
  "Join sep [] = []"
| "Join sep [l] = l"
| "Join sep (l # ls) = l @ sep # Join sep ls"

text \<open>
  The command of the service variant for the service \<open>ceremonyclient\<close>, written out.
\<close>

definition journalCommand :: string where
  \<open>journalCommand =
     ''journalctl -u ceremonyclient.service -n 50 --no-hostname -o cat | '' @
     ''grep -E '' @ [sq] @
     ''"msg":"(connecting to bootstrap|broadcasting self-test info|peers in store)"'' @ [sq]\<close>







section \<open>Sample inputs\<close>

definition cpu_sample :: string where
  "cpu_sample = ''%Cpu(s):  1.3 us,  0.7 sy,  0.0 ni, 97.9 id''"

definition mem_sample :: string where
  "mem_sample =
     ''       total   used   free'' @ [newline] @
     ''Mem:    7951   1234   4000'' @ [newline] @
     ''Swap:      0      0      0'' @ [newline]"

definition c1_sample :: string where
  \<open>c1_sample =
     ''{"msg":"peers in store","level":"info","ts":"x","caller":"y","count":12}\<newline>'' @
     ''{"msg":"peers in store","count":15}\<newline>''\<close>

definition c4_sample :: string where
  \<open>c4_sample =
     ''{"msg":"peers in store","count":15}\<newline>'' @
     ''{"msg":"connecting to bootstrap","peer":"p1"}\<newline>''\<close>

definition c4_out_ab :: string where
  \<open>c4_out_ab =
     ''{ msg: connecting to bootstrap; peer: p1 }\<newline>{ msg: peers in store; count: 15 }\<newline>''\<close>

definition c4_out_ba :: string where
  \<open>c4_out_ba =
     ''{ msg: peers in store; count: 15 }\<newline>{ msg: connecting to bootstrap; peer: p1 }\<newline>''\<close>

definition node0 :: Node where
  "node0 = \<lparr>IP = ''10.0.0.1'', Username = ''monitor'', Password = ''secret''\<rparr>"

definition cfg1 :: Config where
  "cfg1 = \<lparr>Nodes = [node0]\<rparr>"

definition env_down :: remote where
  "env_down = \<lparr>dial = (\<lambda>node. Some ''timeout''), newSession = (\<lambda>node n. None),
                runCmd = (\<lambda>node cmd. Inr [])\<rparr>"

definition df_sample :: string where
  "df_sample = ''/dev/sda1 79G 40G 36G 53% /'' @ [newline]"

definition env_up :: remote where
  "env_up = \<lparr>dial = (\<lambda>node. None), newSession = (\<lambda>node n. None),
              runCmd = (\<lambda>node cmd.
                 if cmd = ''free -m'' then Inr mem_sample
                 else if cmd = ''df -h /'' then Inr df_sample
                 else if cmd = journalCommand then Inr c1_sample
                 else Inr cpu_sample)\<rparr>"

definition env_nologs :: remote where
  "env_nologs = \<lparr>dial = (\<lambda>node. None), newSession = (\<lambda>node n. None),
              runCmd = (\<lambda>node cmd.
                 if cmd = ''free -m'' then Inr mem_sample
                 else if cmd = ''df -h /'' then Inr df_sample
                 else if cmd = journalCommand then Inl ''Process exited with status 1''
                 else Inr cpu_sample)\<rparr>"

definition down_text :: string where
  "down_text = ''Error fetching status for node 10.0.0.1: failed to dial: timeout''"

definition report_up :: string where
  "report_up =
     ''[blue::b]Node: 10.0.0.1'' @ [newline] @
     ''[green::b]CPU Usage: [white]User Space: 1.3%; System Space: 0.7%'' @ [newline] @
     ''[green::b]Memory Usage: [white]Total Memory: 7951 MB; Used Memory: 1234 MB'' @ [newline] @
     ''[green::b]Storage Usage:'' @ [newline] @ '' [white]/dev/sda1 79G 40G 36G 53% /'' @ [newline] @
     ''[yellow::b]Logs: [white]{ msg: peers in store; count: 15 }'' @ [newline]"

definition nologs_text :: string where
  "nologs_text =
     ''Error fetching status for node 10.0.0.1: failed to read logs: failed to run command ''
       @ [sq] @ journalCommand @ [sq] @ '': Process exited with status 1''"




definition c1_entry2 :: "(string \<times> jvalue) list" where
  "c1_entry2 =
     [(''msg'', JString ''peers in store''),
      (''count'', JFloat (Float64 False 8444249301319680 (- 49)))]"

definition c1_visits :: "(string \<times> (string \<times> jvalue) list) list" where
  "c1_visits =
     [(''peers in store'', [(''count'', JFloat (Float64 False 8444249301319680 (- 49)))])]"

definition c4_visits_ab :: "(string \<times> (string \<times> jvalue) list) list" where
  "c4_visits_ab =
     [(''connecting to bootstrap'', [(''peer'', JString ''p1'')]),
      (''peers in store'', [(''count'', JFloat (Float64 False 8444249301319680 (- 49)))])]"

definition c4_visits_ba :: "(string \<times> (string \<times> jvalue) list) list" where
  "c4_visits_ba =
     [(''peers in store'', [(''count'', JFloat (Float64 False 8444249301319680 (- 49)))]),
      (''connecting to bootstrap'', [(''peer'', JString ''p1'')])]"




definition node1 :: Node where
  "node1 = \<lparr>IP = ''10.0.0.2'', Username = ''monitor'', Password = ''secret''\<rparr>"

definition cfg2 :: Config where
  "cfg2 = \<lparr>Nodes = [node0, node1]\<rparr>"

definition env_mixed :: remote where
  "env_mixed = \<lparr>dial = (\<lambda>node. None), newSession = (\<lambda>node n. None),
              runCmd = (\<lambda>node cmd.
                 if cmd = ''free -m'' then Inr mem_sample
                 else if cmd = ''df -h /'' then Inr df_sample
                 else if cmd = journalCommand then Inr c1_sample
                 else if IP node = ''10.0.0.2'' then Inr ''Cpu(s): 1.3 us,''
                 else Inr cpu_sample)\<rparr>"

definition short_cpu :: string where
  "short_cpu = ''Cpu(s): 1.3 us,''"


section \<open>Auxiliary lemmas\<close>

lemma Fields_cpu_sample:
  "Fields cpu_sample =
     [''%Cpu(s):'', ''1.3'', ''us,'', ''0.7'', ''sy,'', ''0.0'', ''ni,'', ''97.9'', ''id'']"
  by code_simp

lemma Split_mem_sample:
  "Split newline mem_sample =
     [''       total   used   free'', ''Mem:    7951   1234   4000'',
      ''Swap:      0      0      0'', []]"
  by code_simp

lemma Fields_mem_line:
  "Fields ''Mem:    7951   1234   4000'' = [''Mem:'', ''7951'', ''1234'', ''4000'']"
  by code_simp

lemma Fields_short: "Fields ''Cpu(s): 1.3 us,'' = [''Cpu(s):'', ''1.3'', ''us,'']"
  by code_simp

lemma set_interleave: "set (interleave x ys) = {zs. \<exists>a b. ys = a @ b \<and> zs = a @ x # b}"
proof (induction ys)
  case Nil
  then show ?case by auto
next
  case (Cons y ys)
  show ?case
  proof (intro set_eqI iffI)
    fix zs assume "zs \<in> set (interleave x (y # ys))"
    then consider "zs = x # y # ys" | a b where "ys = a @ b" "zs = y # a @ x # b"
      using Cons.IH by auto
    then show "zs \<in> {zs. \<exists>a b. y # ys = a @ b \<and> zs = a @ x # b}"
    proof cases
      case 1
      then show ?thesis by (auto intro: exI [of _ "[]"])
    next
      case 2
      then show ?thesis by (auto intro: exI [of _ "y # a"])
    qed
  next
    fix zs assume "zs \<in> {zs. \<exists>a b. y # ys = a @ b \<and> zs = a @ x # b}"
    then obtain a b where ab: "y # ys = a @ b" "zs = a @ x # b" by auto
    show "zs \<in> set (interleave x (y # ys))"
    proof (cases a)
      case Nil
      with ab show ?thesis by auto
    next
      case (Cons a0 a')
      with ab have "ys = a' @ b" "zs = y # a' @ x # b" by auto
      then show ?thesis using Cons.IH by auto
    qed
  qed
qed

lemma set_perms: "set (perms xs) = {ys. mset ys = mset xs}"
proof (induction xs)
  case Nil
  then show ?case by auto
next
  case (Cons x xs)
  show ?case
  proof (intro set_eqI iffI)
    fix ys assume "ys \<in> set (perms (x # xs))"
    then obtain p a b where "mset p = mset xs" "p = a @ b" "ys = a @ x # b"
      using Cons.IH by (auto simp: set_interleave)
    then show "ys \<in> {ys. mset ys = mset (x # xs)}" by auto
  next
    fix ys assume "ys \<in> {ys. mset ys = mset (x # xs)}"
    then have m: "mset ys = mset (x # xs)" by simp
    then have "x \<in> set ys" by (metis list.set_intros(1) mset_eq_setD)
    then obtain a b where ys: "ys = a @ x # b" by (auto dest: split_list)
    with m have "mset (a @ b) = mset xs" by simp
    then have "a @ b \<in> set (perms xs)" using Cons.IH by simp
    with ys show "ys \<in> set (perms (x # xs))" by (auto simp: set_interleave)
  qed
qed

lemma storeLine_record:
  "storeLine mt line =
     (case lineRecord line of
        None \<Rightarrow> mt
      | Some (msg, e) \<Rightarrow> if map_of mt msg \<noteq> None then AList.update msg (Some e) mt else mt)"
  by (auto simp: storeLine_def lineRecord_def mapIndex_def
           split: sum.splits option.splits jvalue.splits)

lemma latest_append:
  "latest k (a @ b) = (case latest k b of Some e \<Rightarrow> Some e | None \<Rightarrow> latest k a)"
  by (induction a) (auto split: option.splits)

lemma latest_snoc:
  "latest k (ls @ [l]) =
     (case lineRecord l of
        Some (msg, e) \<Rightarrow> if msg = k then Some e else latest k ls
      | None \<Rightarrow> latest k ls)"
  by (auto simp: latest_append split: option.splits)

lemma update_tabulate:
  "distinct ks \<Longrightarrow> m \<in> set ks \<Longrightarrow>
   AList.update m v (map (\<lambda>k. (k, f k)) ks) = map (\<lambda>k. (k, if k = m then v else f k)) ks"
  by (induction ks) auto

lemma map_of_tabulate: "map_of (map (\<lambda>k. (k, f k)) ks) m = (if m \<in> set ks then Some (f m) else None)"
  by (induction ks) auto

lemma distinct_watchedKeys: "distinct watchedKeys"
  by (simp add: watchedKeys_def messageTypes_def)

lemma collect_latest: "collect ls = map (\<lambda>k. (k, latest k ls)) watchedKeys"
proof (induction ls rule: rev_induct)
  case Nil
  show ?case by (simp add: collect_def watchedKeys_def messageTypes_def)
next
  case (snoc l ls)
  have c: "collect (ls @ [l]) = storeLine (collect ls) l" by (simp add: collect_def)
  show ?case
  proof (cases "lineRecord l")
    case None
    then show ?thesis using snoc by (simp add: c storeLine_record latest_snoc)
  next
    case (Some r)
    obtain msg e where r: "r = (msg, e)" by (cases r)
    show ?thesis
    proof (cases "msg \<in> set watchedKeys")
      case True
      then show ?thesis
        using snoc Some r distinct_watchedKeys
        by (simp add: c storeLine_record latest_snoc map_of_tabulate update_tabulate)
    next
      case False
      then have "\<And>k. k \<in> set watchedKeys \<Longrightarrow> msg \<noteq> k" by auto
      then show ?thesis
        using snoc Some r False
        by (simp add: c storeLine_record latest_snoc map_of_tabulate)
    qed
  qed
qed

lemma writeEntries_char:
  "set (writeEntries order result) =
     {result @ render vis | vis. list_all2 visitOf vis (stored order)}"
proof (induction order arbitrary: result)
  case Nil
  show ?case by (auto simp: render_def)
next
  case (Cons p order)
  obtain msg m where p: "p = (msg, m)" by (cases p)
  show ?case
  proof (cases m)
    case None
    then show ?thesis using Cons.IH p by simp
  next
    case (Some e)
    have "set (writeEntries (p # order) result) =
            (\<Union>fields \<in> {fs. mset fs = mset (omitKeys e)}.
               {(result @ writeEntry msg fields) @ render vis | vis.
                  list_all2 visitOf vis (stored order)})"
      using Cons.IH by (simp add: p Some set_perms)
    also have "\<dots> = {result @ render vis | vis. list_all2 visitOf vis (stored (p # order))}"
    proof (intro set_eqI iffI)
      fix out
      assume "out \<in> (\<Union>fields \<in> {fs. mset fs = mset (omitKeys e)}.
               {(result @ writeEntry msg fields) @ render vis | vis.
                  list_all2 visitOf vis (stored order)})"
      then obtain fields vis where
        f: "mset fields = mset (omitKeys e)" and v: "list_all2 visitOf vis (stored order)"
        and out: "out = (result @ writeEntry msg fields) @ render vis" by auto
      have "list_all2 visitOf ((msg, fields) # vis) (stored (p # order))"
        using f v by (simp add: p Some visitOf_def)
      moreover have "out = result @ render ((msg, fields) # vis)"
        using out by (simp add: render_def)
      ultimately show "out \<in> {result @ render vis | vis.
                          list_all2 visitOf vis (stored (p # order))}" by blast
    next
      fix out
      assume "out \<in> {result @ render vis | vis. list_all2 visitOf vis (stored (p # order))}"
      then obtain vis where v: "list_all2 visitOf vis ((msg, e) # stored order)"
        and out: "out = result @ render vis" by (auto simp: p Some)
      from v obtain v0 vis' where vis: "vis = v0 # vis'" and v0: "visitOf v0 (msg, e)"
        and v': "list_all2 visitOf vis' (stored order)" by (auto simp: list_all2_Cons2)
      have "out = (result @ writeEntry msg (snd v0)) @ render vis'"
        using out vis v0 by (simp add: render_def visitOf_def)
      moreover have "mset (snd v0) = mset (omitKeys e)" using v0 by (simp add: visitOf_def)
      ultimately show "out \<in> (\<Union>fields \<in> {fs. mset fs = mset (omitKeys e)}.
               {(result @ writeEntry msg fields) @ render vis | vis.
                  list_all2 visitOf vis (stored order)})"
        using v' by blast
    qed
    finally show ?thesis .
  qed
qed

lemma outputs_char: "set (outputs mt) = render ` visits mt"
  by (auto simp: outputs_def visits_def set_perms writeEntries_char)

lemma stored_filter:
  "stored mt = map (\<lambda>p. (fst p, the (snd p))) (filter (\<lambda>p. snd p \<noteq> None) mt)"
  by (induction mt rule: stored.induct) auto

lemma mset_stored:
  assumes "mset order = mset mt"
  shows "mset (stored order) = mset (stored mt)"
proof -
  have "mset (stored l) =
          image_mset (\<lambda>p. (fst p, the (snd p))) (filter_mset (\<lambda>p. snd p \<noteq> None) (mset l))"
    for l :: "(string \<times> gomap) list"
    by (simp only: stored_filter mset_map mset_filter)
  then show ?thesis using assms by simp
qed

lemma set_stored: "set (stored mt) = {(k, e). (k, Some e) \<in> set mt}"
  by (induction mt rule: stored.induct) auto

lemma distinct_stored:
  assumes "distinct (map fst mt)"
  shows "distinct (map fst (stored mt))"
proof -
  have "map fst (stored mt) = map fst (filter (\<lambda>p. snd p \<noteq> None) mt)"
    by (simp add: stored_filter o_def)
  then show ?thesis using assms by (simp add: distinct_map_filter)
qed

lemma list_all2_visitOf_keys: "list_all2 visitOf vis st \<Longrightarrow> map fst vis = map fst st"
  by (induction rule: list_all2_induct) (auto simp: visitOf_def)

lemma visits_keys:
  assumes "vis \<in> visits mt"
  shows "mset (map fst vis) = mset (map fst (stored mt))"
proof -
  from assms obtain order where o: "mset order = mset mt"
    and v: "list_all2 visitOf vis (stored order)" by (auto simp: visits_def)
  have "mset (map fst vis) = mset (map fst (stored order))"
    using list_all2_visitOf_keys [OF v] by simp
  also have "\<dots> = mset (map fst (stored mt))"
    using arg_cong [OF mset_stored [OF o], of "image_mset fst"] by simp
  finally show ?thesis .
qed

lemma visits_entry:
  assumes vis: "vis \<in> visits mt" and d: "distinct (map fst mt)"
    and k: "(k, Some e) \<in> set mt"
  shows "\<exists>fs. (k, fs) \<in> set vis \<and> mset fs = mset (omitKeys e)
              \<and> (\<forall>fs'. (k, fs') \<in> set vis \<longrightarrow> fs' = fs)"
proof -
  from vis obtain order where o: "mset order = mset mt"
    and v: "list_all2 visitOf vis (stored order)" by (auto simp: visits_def)
  have "set (stored order) = set (stored mt)"
    using mset_stored [OF o] by (rule mset_eq_setD)
  moreover have "(k, e) \<in> set (stored mt)" using k by (simp add: set_stored)
  ultimately have "(k, e) \<in> set (stored order)" by simp
  then obtain i where i: "i < length (stored order)" "stored order ! i = (k, e)"
    by (auto simp: in_set_conv_nth)
  with v have vi: "visitOf (vis ! i) (k, e)" and il: "i < length vis"
    by (auto simp: list_all2_conv_all_nth)
  obtain fs where fs: "vis ! i = (k, fs)" "mset fs = mset (omitKeys e)"
    using vi by (cases "vis ! i") (auto simp: visitOf_def)
  have "distinct (map fst vis)"
  proof -
    have "mset (map fst vis) = mset (map fst (stored mt))" using vis by (rule visits_keys)
    moreover have "distinct (map fst (stored mt))" using d by (rule distinct_stored)
    ultimately show ?thesis using mset_eq_imp_distinct_iff by blast
  qed
  then have "\<And>fs'. (k, fs') \<in> set vis \<Longrightarrow> fs' = fs"
    using fs(1) il eq_key_imp_eq_value [of vis k _ fs] nth_mem [of i vis] by simp
  moreover have "(k, fs) \<in> set vis" using fs(1) il nth_mem [of i vis] by simp
  ultimately show ?thesis using fs(2) by blast
qed

lemma visits_absent:
  assumes vis: "vis \<in> visits mt" and k: "\<forall>e. (k, Some e) \<notin> set mt"
  shows "k \<notin> fst ` set vis"
proof -
  have "set (map fst vis) = set (map fst (stored mt))"
    using visits_keys [OF vis] by (rule mset_eq_setD)
  then show ?thesis using k by (auto simp: set_stored image_iff)
qed

lemma skipped_iff: "skipped l \<longleftrightarrow> lineRecord l = None"
  by (auto simp: skipped_def lineRecord_def mapIndex_def
           split: sum.splits option.splits jvalue.splits)

lemma Split_nonempty: "Split sep s \<noteq> []"
  by (induction s) (auto split: list.splits)

lemma Split_no_sep: "l \<in> set (Split sep s) \<Longrightarrow> sep \<notin> set l"
  by (induction s arbitrary: l) (auto split: if_splits list.splits)

lemma Split_line: "sep \<notin> set l \<Longrightarrow> Split sep l = [l]"
  by (induction l) auto

lemma Split_cons: "sep \<notin> set l \<Longrightarrow> Split sep (l @ sep # r) = l # Split sep r"
  by (induction l) (auto split: list.splits)

lemma Split_Join: "ls \<noteq> [] \<Longrightarrow> \<forall>l \<in> set ls. sep \<notin> set l \<Longrightarrow> Split sep (Join sep ls) = ls"
  by (induction sep ls rule: Join.induct) (auto simp: Split_line Split_cons)

lemma latest_filter: "latest k (filter (\<lambda>l. lineRecord l \<noteq> None) ls) = latest k ls"
  by (induction ls) (auto split: option.splits)




lemma extractFromLines_cong:
  "(\<And>k. k \<in> set watchedKeys \<Longrightarrow> latest k ls = latest k ls') \<Longrightarrow>
   extractFromLines ls = extractFromLines ls'"
  by (simp add: extractFromLines_def collect_latest cong: map_cong)



lemma lineRecord_empty: "lineRecord [] = None"
  by (simp add: lineRecord_def Unmarshal_def decode_def)

lemma extractLogMessages_char:
  "extractLogMessages logs = render ` visits (collect (Split newline logs))"
  by (simp add: extractLogMessages_def extractFromLines_def outputs_char)

lemma outputs_c1_sample:
  \<open>outputs (collect (Split newline c1_sample)) =
     replicate 6 ''{ msg: peers in store; count: 15 }\<newline>''\<close>
  by code_simp

lemma outputs_c4_sample:
  "outputs (collect (Split newline c4_sample)) =
     [c4_out_ab, c4_out_ab, c4_out_ba, c4_out_ab, c4_out_ba, c4_out_ba]"
  by code_simp

lemma visits_abstract:
  assumes "vis \<in> visits mt"
  shows "mset (map (\<lambda>v. (fst v, mset (snd v))) vis) =
         mset (map (\<lambda>s. (fst s, mset (omitKeys (snd s)))) (stored mt))"
proof -
  from assms obtain order where o: "mset order = mset mt"
    and v: "list_all2 visitOf vis (stored order)" by (auto simp: visits_def)
  from v have "map (\<lambda>v. (fst v, mset (snd v))) vis =
               map (\<lambda>s. (fst s, mset (omitKeys (snd s)))) (stored order)"
    by (induction rule: list_all2_induct) (auto simp: visitOf_def)
  then show ?thesis
    using arg_cong [OF mset_stored [OF o],
                    of "image_mset (\<lambda>s. (fst s, mset (omitKeys (snd s))))"]
    by simp
qed

lemma runStats_issued:
  "runStats env node cmds n stats = (issued, r) \<Longrightarrow>
   prefix issued cmds \<and> (\<forall>stats'. r = Ok stats' \<longrightarrow> issued = cmds)"
proof (induction cmds arbitrary: n stats issued r)
  case Nil
  then show ?case by simp
next
  case (Cons cmd cmds)
  show ?case
  proof (cases "newSession env node n")
    case (Some err)
    with Cons.prems show ?thesis by auto
  next
    case None
    show ?thesis
    proof (cases "runCmd env node cmd")
      case (Inl err)
      with None Cons.prems show ?thesis by auto
    next
      case (Inr out)
      obtain issued' r' where rec: "runStats env node cmds (Suc n) (stats @ [out]) = (issued', r')"
        by (cases "runStats env node cmds (Suc n) (stats @ [out])")
      with None Inr Cons.prems have "issued = cmd # issued'" "r = r'" by auto
      with Cons.IH [OF rec] show ?thesis by auto
    qed
  qed
qed

lemma getNodeStatus_issued:
  "prefix (fst (getNodeStatus env node logReader)) (statsCommands @ [readLogsCommand logReader])"
proof (cases "dial env node")
  case (Some err)
  then show ?thesis by (simp add: getNodeStatus_def)
next
  case None
  obtain issued r where rs: "runStats env node statsCommands 0 [] = (issued, r)"
    by (cases "runStats env node statsCommands 0 []")
  note p = runStats_issued [OF rs]
  show ?thesis
  proof (cases r)
    case (Err e)
    with None rs p show ?thesis by (simp add: getNodeStatus_def prefix_prefix)
  next
    case (Ok stats)
    with p have i: "issued = statsCommands" by simp
    show ?thesis
      using None rs Ok i
      by (auto simp: getNodeStatus_def ReadLogs_def Let_def
               split: option.splits sum.splits)
  qed
qed

lemma nodeTask_issued:
  "b \<in> nodeTask env i node \<Longrightarrow>
   prefix (fst b) (statsCommands @ [readLogsCommand (ServiceLogReader ''ceremonyclient'')])"
  using getNodeStatus_issued [of env node "ServiceLogReader ''ceremonyclient''"]
  by (cases "getNodeStatus env node (ServiceLogReader ''ceremonyclient'')")
     (auto simp: nodeTask_def)

lemma nodeTask_events:
  assumes "(issued, Inr evs) \<in> nodeTask env i node"
  shows "\<exists>text. evs = display i text \<and>
           ((\<exists>err. Inr (Err err) \<in> snd (getNodeStatus env node (ServiceLogReader ''ceremonyclient''))
                   \<and> text = ''Error fetching status for node '' @ IP node @ '': '' @ err)
            \<or> Inr (Ok text) \<in> snd (getNodeStatus env node (ServiceLogReader ''ceremonyclient'')))"
proof -
  obtain cmds outs where g: "getNodeStatus env node (ServiceLogReader ''ceremonyclient'') = (cmds, outs)"
    by (cases "getNodeStatus env node (ServiceLogReader ''ceremonyclient'')")
  with assms obtain outcome where o: "outcome \<in> outs"
    and e: "Inr evs = (case outcome of
                   Inl p \<Rightarrow> Inl p
                 | Inr (Err err) \<Rightarrow>
                     Inr (display i (''Error fetching status for node '' @ IP node @ '': '' @ err))
                 | Inr (Ok output) \<Rightarrow> Inr (display i output))"
    by (auto simp: nodeTask_def)
  show ?thesis
  proof (cases outcome)
    case (Inl p)
    with e show ?thesis by simp
  next
    case (Inr res)
    show ?thesis
    proof (cases res)
      case (Ok report)
      with e o Inr g show ?thesis by auto
    next
      case (Err err)
      with e o Inr g show ?thesis by auto
    qed
  qed
qed

lemma setTextCalls_display:
  "setTextCalls j (display i text) = (if j = i then 2 else 0)"
  by (simp add: setTextCalls_def display_def)

lemma journalCommand_eq: "readLogsCommand (ServiceLogReader ''ceremonyclient'') = journalCommand"
  by (simp add: readLogsCommand_def journalCommand_def grepFilter_def)

lemma tmux_not_issued:
  "readLogsCommand (TmuxLogReader PaneName) \<notin> set (statsCommands @ [journalCommand])"
  by (simp add: readLogsCommand_def statsCommands_def journalCommand_def)

lemma runStats_up:
  "runStats env_up node0 statsCommands 0 [] = (statsCommands, Ok [cpu_sample, mem_sample, df_sample])"
  by (simp add: statsCommands_def env_up_def journalCommand_def)

lemma runStats_nologs:
  "runStats env_nologs node0 statsCommands 0 [] = (statsCommands, Ok [cpu_sample, mem_sample, df_sample])"
  by (simp add: statsCommands_def env_nologs_def journalCommand_def)

lemma parseCPUUsage_cpu_sample:
  "parseCPUUsage cpu_sample = Inr ''User Space: 1.3%; System Space: 0.7%''"
  by (simp add: parseCPUUsage_def index_def Let_def Fields_cpu_sample)

lemma parseMemoryUsage_mem_sample:
  "parseMemoryUsage mem_sample = Inr ''Total Memory: 7951 MB; Used Memory: 1234 MB''"
  by (simp add: parseMemoryUsage_def index_def Let_def Split_mem_sample Fields_mem_line)

lemma formatOutput_up:
  "formatOutput ''10.0.0.1'' [cpu_sample, mem_sample, df_sample, c1_sample] = {Inr report_up}"
proof -
  have e: \<open>extractLogMessages c1_sample = {''{ msg: peers in store; count: 15 }\<newline>''}\<close>
    by (simp add: extractLogMessages_def extractFromLines_def outputs_c1_sample)
  show ?thesis
    by (simp add: formatOutput_def index_def parseCPUUsage_cpu_sample
          parseMemoryUsage_mem_sample e report_up_def df_sample_def newline_def)
qed

lemma getNodeStatus_up:
  "getNodeStatus env_up node0 (ServiceLogReader ''ceremonyclient'') =
     (statsCommands @ [journalCommand], {Inr (Ok report_up)})"
proof -
  have d: "dial env_up node0 = None" "newSession env_up node0 (length statsCommands) = None"
    by (simp_all add: env_up_def)
  have r: "ReadLogs env_up node0 (ServiceLogReader ''ceremonyclient'') = ([journalCommand], Ok c1_sample)"
    by (simp add: ReadLogs_def journalCommand_eq Let_def) (simp add: env_up_def journalCommand_def)
  have ip: "IP node0 = ''10.0.0.1''" by (simp add: node0_def)
  show ?thesis
    by (simp add: getNodeStatus_def d r runStats_up ip formatOutput_up)
qed

lemma getNodeStatus_nologs:
  "getNodeStatus env_nologs node0 (ServiceLogReader ''ceremonyclient'') =
     (statsCommands @ [journalCommand],
      {Inr (Err (''failed to read logs: '' @ runError journalCommand ''Process exited with status 1''))})"
proof -
  have d: "dial env_nologs node0 = None" "newSession env_nologs node0 (length statsCommands) = None"
    by (simp_all add: env_nologs_def)
  have r: "ReadLogs env_nologs node0 (ServiceLogReader ''ceremonyclient'') =
             ([journalCommand], Err (runError journalCommand ''Process exited with status 1''))"
    by (simp add: ReadLogs_def journalCommand_eq Let_def) (simp add: env_nologs_def journalCommand_def)
  show ?thesis
    by (simp add: getNodeStatus_def d r runStats_nologs)
qed






lemma collect_c1_sample:
  "collect (Split newline c1_sample) =
     [(''connecting to bootstrap'', None), (''broadcasting self-test info'', None),
      (''peers in store'', Some c1_entry2)]"
  by code_simp

lemma collect_c4_sample:
  "collect (Split newline c4_sample) =
     [(''connecting to bootstrap'',
       Some [(''msg'', JString ''connecting to bootstrap''), (''peer'', JString ''p1'')]),
      (''broadcasting self-test info'', None),
      (''peers in store'', Some c1_entry2)]"
  by code_simp

lemma omitKeys_c1_entry2:
  "omitKeys c1_entry2 = [(''count'', JFloat (Float64 False 8444249301319680 (- 49)))]"
  by code_simp

lemma omitKeys_c4_entry:
  "omitKeys [(''msg'', JString ''connecting to bootstrap''), (''peer'', JString ''p1'')]
     = [(''peer'', JString ''p1'')]"
  by code_simp

lemma c1_visits_possible: "c1_visits \<in> visits (collect (Split newline c1_sample))"
  unfolding visits_def collect_c1_sample
  by (rule CollectI, rule exI [of _ "[(''connecting to bootstrap'', None),
        (''broadcasting self-test info'', None), (''peers in store'', Some c1_entry2)]"])
     (simp add: c1_visits_def visitOf_def omitKeys_c1_entry2)

lemma c4_visits_ab_possible: "c4_visits_ab \<in> visits (collect (Split newline c4_sample))"
  unfolding visits_def collect_c4_sample
  by (rule CollectI, rule exI [of _ "[(''connecting to bootstrap'',
          Some [(''msg'', JString ''connecting to bootstrap''), (''peer'', JString ''p1'')]),
        (''broadcasting self-test info'', None), (''peers in store'', Some c1_entry2)]"])
     (simp add: c4_visits_ab_def visitOf_def omitKeys_c1_entry2 omitKeys_c4_entry)

lemma c4_visits_ba_possible: "c4_visits_ba \<in> visits (collect (Split newline c4_sample))"
  unfolding visits_def collect_c4_sample
  by (rule CollectI, rule exI [of _ "[(''peers in store'', Some c1_entry2),
        (''connecting to bootstrap'',
          Some [(''msg'', JString ''connecting to bootstrap''), (''peer'', JString ''p1'')]),
        (''broadcasting self-test info'', None)]"])
     (simp add: c4_visits_ba_def visitOf_def omitKeys_c1_entry2 omitKeys_c4_entry)

lemma render_c4_visits: "render c4_visits_ab = c4_out_ab" "render c4_visits_ba = c4_out_ba"
  by code_simp+

lemma render_c1_visits: \<open>render c1_visits = ''{ msg: peers in store; count: 15 }\<newline>''\<close>
  by code_simp




















lemma pollCycle_CompletedI:
  assumes "length bs = length (Nodes config)"
    and "\<forall>i < length bs. bs ! i \<in> nodeTask env i (Nodes config ! i)"
    and "list_all2 finished bs obs"
  shows "Completed obs \<in> pollCycle env config"
  unfolding pollCycle_def using assms by blast

lemma pollCycle_CrashedI:
  assumes "length bs = length (Nodes config)"
    and "\<forall>i < length bs. bs ! i \<in> nodeTask env i (Nodes config ! i)"
    and "i < length bs" and "snd (bs ! i) = Inl p"
    and "list_all2 cutOff bs obs" and "obs ! i = (fst (bs ! i), [])"
  shows "Crashed p obs \<in> pollCycle env config"
  unfolding pollCycle_def using assms by blast

lemma setTextCalls_prefix: "prefix xs ys \<Longrightarrow> setTextCalls i xs \<le> setTextCalls i ys"
  by (auto simp: prefix_def setTextCalls_def)

lemma issued_journal:
  assumes p: "prefix issued (statsCommands @ [journalCommand])"
  shows "(length issued = 4 \<longrightarrow> last issued = journalCommand) \<and>
         (\<forall>PaneName. readLogsCommand (TmuxLogReader PaneName) \<notin> set issued)"
proof -
  from p obtain rest where r: "statsCommands @ [journalCommand] = issued @ rest"
    by (auto simp: prefix_def)
  have "length issued = 4 \<longrightarrow> last issued = journalCommand"
  proof
    assume "length issued = 4"
    moreover from r have "length (statsCommands @ [journalCommand]) = length (issued @ rest)"
      by (rule arg_cong)
    ultimately have "rest = []" by (simp add: statsCommands_def)
    with r have "issued = statsCommands @ [journalCommand]" by simp
    then show "last issued = journalCommand" by simp
  qed
  moreover have "\<forall>PaneName. readLogsCommand (TmuxLogReader PaneName) \<notin> set issued"
  proof
    fix PaneName
    have "set issued \<subseteq> set (statsCommands @ [journalCommand])" using p by (rule set_mono_prefix)
    then show "readLogsCommand (TmuxLogReader PaneName) \<notin> set issued"
      using tmux_not_issued [of PaneName] by blast
  qed
  ultimately show ?thesis by blast
qed

lemma nodeTask_journal:
  "b \<in> nodeTask env i node \<Longrightarrow> prefix (fst b) (statsCommands @ [journalCommand])"
  using nodeTask_issued [of b env i node] by (simp add: journalCommand_eq)

lemma pollCycle_StoppedI:
  assumes "length bs = length (Nodes config)"
    and "\<forall>i < length bs. bs ! i \<in> nodeTask env i (Nodes config ! i)"
    and "list_all2 cutOff bs obs"
  shows "Stopped obs \<in> pollCycle env config"
  unfolding pollCycle_def using assms by blast

lemma finished_cutOff: "finished b ob \<Longrightarrow> cutOff b ob"
  by (cases b; cases ob) (auto simp: finished_def cutOff_def)

lemma pollCycle_observed:
  assumes "c \<in> pollCycle env config"
  obtains bs where "length bs = length (Nodes config)"
    and "\<forall>i < length bs. bs ! i \<in> nodeTask env i (Nodes config ! i)"
    and "length (observed c) = length bs"
    and "\<forall>i < length bs. cutOff (bs ! i) (observed c ! i)"
    and "\<forall>obs. c = Completed obs \<longrightarrow> (\<forall>i < length bs. finished (bs ! i) (obs ! i))"
proof -
  from assms obtain bs where bs: "length bs = length (Nodes config)"
      "\<forall>i < length bs. bs ! i \<in> nodeTask env i (Nodes config ! i)"
    and d: "(\<exists>obs. c = Completed obs \<and> list_all2 finished bs obs) \<or>
            (\<exists>p obs i. c = Crashed p obs \<and> i < length bs \<and> snd (bs ! i) = Inl p \<and>
                       list_all2 cutOff bs obs \<and> obs ! i = (fst (bs ! i), [])) \<or>
            (\<exists>obs. c = Stopped obs \<and> list_all2 cutOff bs obs)"
    unfolding pollCycle_def by blast
  have f: "\<forall>obs. c = Completed obs \<longrightarrow> (\<forall>i < length bs. finished (bs ! i) (obs ! i))"
    using d by (auto simp: list_all2_conv_all_nth)
  have fc: "list_all2 finished bs obs \<Longrightarrow> list_all2 cutOff bs obs" for obs
    by (erule list_all2_mono) (rule finished_cutOff)
  have "list_all2 cutOff bs (observed c)"
    using d fc by (auto simp: observed_def)
  then have l: "length (observed c) = length bs"
    and n: "\<forall>i < length bs. cutOff (bs ! i) (observed c ! i)"
    by (auto simp: list_all2_conv_all_nth)
  show thesis by (rule that [OF bs l n f])
qed

lemma cutOff_calls:
  assumes b: "b \<in> nodeTask env j node" and c: "cutOff b ob"
  shows "setTextCalls i (snd ob) \<le> (if j = i then 2 else 0) \<and>
         (\<exists>shown. prefix (snd ob) [SetText j shown, QueueUpdateDraw j shown] \<and>
            (snd ob \<noteq> [] \<longrightarrow>
               (\<exists>err. Inr (Err err) \<in> snd (getNodeStatus env node (ServiceLogReader ''ceremonyclient''))
                      \<and> shown = ''Error fetching status for node '' @ IP node @ '': '' @ err)
               \<or> Inr (Ok shown) \<in> snd (getNodeStatus env node (ServiceLogReader ''ceremonyclient''))))"
proof (cases "snd b")
  case (Inl p)
  with c have "snd ob = []" by (simp add: cutOff_def)
  then show ?thesis by (simp add: setTextCalls_def)
next
  case (Inr evs)
  then have "(fst b, Inr evs) \<in> nodeTask env j node" using b by (metis prod.collapse)
  from nodeTask_events [OF this] obtain shown where e: "evs = display j shown"
    and t: "(\<exists>err. Inr (Err err) \<in> snd (getNodeStatus env node (ServiceLogReader ''ceremonyclient''))
                      \<and> shown = ''Error fetching status for node '' @ IP node @ '': '' @ err)
               \<or> Inr (Ok shown) \<in> snd (getNodeStatus env node (ServiceLogReader ''ceremonyclient''))"
    by blast
  from c Inr e have p: "prefix (snd ob) (display j shown)" by (simp add: cutOff_def)
  from setTextCalls_prefix [OF p, of i] have "setTextCalls i (snd ob) \<le> (if j = i then 2 else 0)"
    by (simp add: setTextCalls_display eq_commute)
  moreover from p have "prefix (snd ob) [SetText j shown, QueueUpdateDraw j shown]"
    by (simp add: display_def)
  ultimately show ?thesis using t by blast
qed

lemma finished_calls:
  assumes b: "b \<in> nodeTask env j node" and c: "finished b ob"
  shows "setTextCalls i (snd ob) = (if j = i then 2 else 0) \<and>
         (\<exists>shown. snd ob = [SetText j shown, QueueUpdateDraw j shown] \<and>
            ((\<exists>err. Inr (Err err) \<in> snd (getNodeStatus env node (ServiceLogReader ''ceremonyclient''))
                      \<and> shown = ''Error fetching status for node '' @ IP node @ '': '' @ err)
               \<or> Inr (Ok shown) \<in> snd (getNodeStatus env node (ServiceLogReader ''ceremonyclient''))))"
proof -
  from c have "snd b = Inr (snd ob)" by (simp add: finished_def)
  then have "(fst b, Inr (snd ob)) \<in> nodeTask env j node" using b by (metis prod.collapse)
  from nodeTask_events [OF this] obtain shown where e: "snd ob = display j shown"
    and t: "(\<exists>err. Inr (Err err) \<in> snd (getNodeStatus env node (ServiceLogReader ''ceremonyclient''))
                      \<and> shown = ''Error fetching status for node '' @ IP node @ '': '' @ err)
               \<or> Inr (Ok shown) \<in> snd (getNodeStatus env node (ServiceLogReader ''ceremonyclient''))"
    by blast
  have "setTextCalls i (snd ob) = (if j = i then 2 else 0)"
    by (simp add: e setTextCalls_display eq_commute)
  moreover have "snd ob = [SetText j shown, QueueUpdateDraw j shown]"
    by (simp add: e display_def)
  ultimately show ?thesis using t by blast
qed

lemma nodeTask_down: "nodeTask env_down 0 node0 = {([], Inr (display 0 down_text))}"
  by (simp add: nodeTask_def getNodeStatus_def env_down_def node0_def down_text_def)

lemma nodeTask_up:
  "nodeTask env_up 0 node0 = {(statsCommands @ [journalCommand], Inr (display 0 report_up))}"
  by (simp add: nodeTask_def getNodeStatus_up)

lemma nodeTask_nologs:
  "nodeTask env_nologs 0 node0 = {(statsCommands @ [journalCommand], Inr (display 0 nologs_text))}"
  by (simp add: nodeTask_def getNodeStatus_nologs)
     (simp add: node0_def nologs_text_def runError_def)

lemma getNodeStatus_mixed0:
  "getNodeStatus env_mixed node0 (ServiceLogReader ''ceremonyclient'') =
     (statsCommands @ [journalCommand], {Inr (Ok report_up)})"
proof -
  have d: "dial env_mixed node0 = None" "newSession env_mixed node0 (length statsCommands) = None"
    by (simp_all add: env_mixed_def)
  have s: "runStats env_mixed node0 statsCommands 0 [] =
             (statsCommands, Ok [cpu_sample, mem_sample, df_sample])"
    by (simp add: statsCommands_def env_mixed_def journalCommand_def node0_def)
  have r: "ReadLogs env_mixed node0 (ServiceLogReader ''ceremonyclient'') = ([journalCommand], Ok c1_sample)"
    by (simp add: ReadLogs_def journalCommand_eq Let_def) (simp add: env_mixed_def journalCommand_def)
  have ip: "IP node0 = ''10.0.0.1''" by (simp add: node0_def)
  show ?thesis
    by (simp add: getNodeStatus_def d r s ip formatOutput_up)
qed

lemma getNodeStatus_mixed1:
  "getNodeStatus env_mixed node1 (ServiceLogReader ''ceremonyclient'') =
     (statsCommands @ [journalCommand], {Inl (IndexOutOfRange 3 3)})"
proof -
  have d: "dial env_mixed node1 = None" "newSession env_mixed node1 (length statsCommands) = None"
    by (simp_all add: env_mixed_def)
  have s: "runStats env_mixed node1 statsCommands 0 [] =
             (statsCommands, Ok [short_cpu, mem_sample, df_sample])"
    by (simp add: statsCommands_def env_mixed_def journalCommand_def node1_def short_cpu_def)
  have r: "ReadLogs env_mixed node1 (ServiceLogReader ''ceremonyclient'') = ([journalCommand], Ok c1_sample)"
    by (simp add: ReadLogs_def journalCommand_eq Let_def) (simp add: env_mixed_def journalCommand_def)
  have p: "parseCPUUsage short_cpu = Inl (IndexOutOfRange 3 3)"
    by (simp add: parseCPUUsage_def index_def Let_def short_cpu_def Fields_short)
  have f: "formatOutput (IP node1) [short_cpu, mem_sample, df_sample, c1_sample] = {Inl (IndexOutOfRange 3 3)}"
    by (simp add: formatOutput_def index_def p)
  show ?thesis
    by (simp add: getNodeStatus_def d r s f)
qed

lemma nodeTask_mixed0:
  "nodeTask env_mixed 0 node0 = {(statsCommands @ [journalCommand], Inr (display 0 report_up))}"
  by (simp add: nodeTask_def getNodeStatus_mixed0)

lemma nodeTask_mixed1:
  "nodeTask env_mixed (Suc 0) node1 = {(statsCommands @ [journalCommand], Inl (IndexOutOfRange 3 3))}"
  by (simp add: nodeTask_def getNodeStatus_mixed1)

lemma cycle_down:
  "Completed [([], [SetText 0 down_text, QueueUpdateDraw 0 down_text])] \<in> pollCycle env_down cfg1"
  by (rule pollCycle_CompletedI [where bs = "[([], Inr (display 0 down_text))]"])
     (simp_all add: cfg1_def nodeTask_down finished_def display_def)

lemma cycle_up:
  "Completed [(statsCommands @ [journalCommand], [SetText 0 report_up, QueueUpdateDraw 0 report_up])]
     \<in> pollCycle env_up cfg1"
  by (rule pollCycle_CompletedI
        [where bs = "[(statsCommands @ [journalCommand], Inr (display 0 report_up))]"])
     (simp_all add: cfg1_def nodeTask_up finished_def display_def)

lemma cycle_nologs:
  "Completed [(statsCommands @ [journalCommand], [SetText 0 nologs_text, QueueUpdateDraw 0 nologs_text])]
     \<in> pollCycle env_nologs cfg1"
  by (rule pollCycle_CompletedI
        [where bs = "[(statsCommands @ [journalCommand], Inr (display 0 nologs_text))]"])
     (simp_all add: cfg1_def nodeTask_nologs finished_def display_def)

lemma cycle_mixed:
  "Crashed (IndexOutOfRange 3 3)
     [(statsCommands @ [journalCommand], [SetText 0 report_up]),
      (statsCommands @ [journalCommand], [])]
     \<in> pollCycle env_mixed cfg2"
  by (rule pollCycle_CrashedI
        [where bs = "[(statsCommands @ [journalCommand], Inr (display 0 report_up)),
                      (statsCommands @ [journalCommand], Inl (IndexOutOfRange 3 3))]"
           and i = 1])
     (simp_all add: cfg2_def nodeTask_mixed0 nodeTask_mixed1 cutOff_def display_def less_Suc_eq)














section \<open>The properties\<close>

text \<open>
  C1: on the sample made of the line
  \<open>{"msg":"peers in store","level":"info","ts":"x","caller":"y","count":12}\<close> followed by
  the line \<open>{"msg":"peers in store","count":15}\<close>, the extractor returns exactly the one
  line \<open>{ msg: peers in store; count: 15 }\<close>: the fields \<open>level\<close>, \<open>ts\<close> and \<open>caller\<close>
  are gone, the count has no decimal places, and nothing is written for the other two
  watched keys.  The set on the right is the set of all possible return values.
\<close>

theorem extractLogMessages_c1_sample:
  \<open>extractLogMessages c1_sample = {''{ msg: peers in store; count: 15 }\<newline>''}\<close>
  by (simp add: extractLogMessages_def extractFromLines_def outputs_c1_sample)



text \<open>
  C3: the claim that \<open>SetText\<close> is invoked exactly once for a node's slot in a cycle
  does not hold: the goroutine calls \<open>SetText\<close> directly and then once more inside the
  function it hands to \<open>QueueUpdateDraw\<close>.  With a node that cannot be dialled there
  is a completed cycle in which the slot receives the error text twice.
\<close>

theorem setText_once_counterexample:
  "Completed [([], [SetText 0 down_text, QueueUpdateDraw 0 down_text])] \<in> pollCycle env_down cfg1 \<and>
   setTextCalls 0 [SetText 0 down_text, QueueUpdateDraw 0 down_text] = 2"
  using cycle_down by (simp add: setTextCalls_def)

text \<open>
  C3, amended: in every cycle that runs to its end, \<open>SetText\<close> is invoked exactly
  twice on every node's slot, by that node's goroutine and by no other, once directly
  and once through \<open>QueueUpdateDraw\<close>, both times with the same text: the error text
  when \<open>getNodeStatus\<close> returned an error, the formatted status otherwise.  In a
  cycle that the end of the process cuts short (a panic of some goroutine, or the
  return of \<open>main\<close>), what a slot has received is an initial part of these two
  calls: nothing, the direct call, or both; and no other goroutine has written to it.
\<close>

theorem setText_twice_same_text:
  assumes "c \<in> pollCycle env config" and "i < length (Nodes config)"
  shows "length (observed c) = length (Nodes config) \<and>
         (\<forall>j < length (observed c).
            setTextCalls i (snd (observed c ! j)) \<le> (if j = i then 2 else 0)) \<and>
         (\<exists>shown. prefix (snd (observed c ! i)) [SetText i shown, QueueUpdateDraw i shown] \<and>
            (snd (observed c ! i) \<noteq> [] \<longrightarrow>
               (\<exists>err. Inr (Err err)
                        \<in> snd (getNodeStatus env (Nodes config ! i) (ServiceLogReader ''ceremonyclient''))
                      \<and> shown = ''Error fetching status for node '' @ IP (Nodes config ! i) @ '': '' @ err)
               \<or> Inr (Ok shown)
                    \<in> snd (getNodeStatus env (Nodes config ! i) (ServiceLogReader ''ceremonyclient'')))) \<and>
         (\<forall>obs. c = Completed obs \<longrightarrow>
            (\<forall>j < length obs. setTextCalls i (snd (obs ! j)) = (if j = i then 2 else 0)) \<and>
            (\<exists>shown. snd (obs ! i) = [SetText i shown, QueueUpdateDraw i shown] \<and>
               ((\<exists>err. Inr (Err err)
                        \<in> snd (getNodeStatus env (Nodes config ! i) (ServiceLogReader ''ceremonyclient''))
                      \<and> shown = ''Error fetching status for node '' @ IP (Nodes config ! i) @ '': '' @ err)
               \<or> Inr (Ok shown)
                    \<in> snd (getNodeStatus env (Nodes config ! i) (ServiceLogReader ''ceremonyclient'')))))"
proof -
  from assms(1) obtain bs where l: "length bs = length (Nodes config)"
    and b: "\<forall>i < length bs. bs ! i \<in> nodeTask env i (Nodes config ! i)"
    and lo: "length (observed c) = length bs"
    and co: "\<forall>i < length bs. cutOff (bs ! i) (observed c ! i)"
    and fi: "\<forall>obs. c = Completed obs \<longrightarrow> (\<forall>i < length bs. finished (bs ! i) (obs ! i))"
    by (rule pollCycle_observed)
  have 1: "length (observed c) = length (Nodes config)" using l lo by simp
  have 2: "\<forall>j < length (observed c).
            setTextCalls i (snd (observed c ! j)) \<le> (if j = i then 2 else 0)"
  proof (intro allI impI)
    fix j assume "j < length (observed c)"
    then have j: "j < length bs" using lo by simp
    from cutOff_calls [of "bs ! j" env j "Nodes config ! j" "observed c ! j" i] b co j
    show "setTextCalls i (snd (observed c ! j)) \<le> (if j = i then 2 else 0)" by blast
  qed
  have i: "i < length bs" using assms(2) l by simp
  have 3: "\<exists>shown. prefix (snd (observed c ! i)) [SetText i shown, QueueUpdateDraw i shown] \<and>
            (snd (observed c ! i) \<noteq> [] \<longrightarrow>
               (\<exists>err. Inr (Err err)
                        \<in> snd (getNodeStatus env (Nodes config ! i) (ServiceLogReader ''ceremonyclient''))
                      \<and> shown = ''Error fetching status for node '' @ IP (Nodes config ! i) @ '': '' @ err)
               \<or> Inr (Ok shown)
                    \<in> snd (getNodeStatus env (Nodes config ! i) (ServiceLogReader ''ceremonyclient'')))"
    using cutOff_calls [of "bs ! i" env i "Nodes config ! i" "observed c ! i" i] b co i by blast
  have 4: "\<forall>obs. c = Completed obs \<longrightarrow>
            (\<forall>j < length obs. setTextCalls i (snd (obs ! j)) = (if j = i then 2 else 0)) \<and>
            (\<exists>shown. snd (obs ! i) = [SetText i shown, QueueUpdateDraw i shown] \<and>
               ((\<exists>err. Inr (Err err)
                        \<in> snd (getNodeStatus env (Nodes config ! i) (ServiceLogReader ''ceremonyclient''))
                      \<and> shown = ''Error fetching status for node '' @ IP (Nodes config ! i) @ '': '' @ err)
               \<or> Inr (Ok shown)
                    \<in> snd (getNodeStatus env (Nodes config ! i) (ServiceLogReader ''ceremonyclient''))))"
  proof (intro allI impI conjI)
    fix obs assume c: "c = Completed obs"
    then have lo': "length obs = length bs" using lo by (simp add: observed_def)
    from fi c have f: "\<forall>i < length bs. finished (bs ! i) (obs ! i)" by blast
    show "setTextCalls i (snd (obs ! j)) = (if j = i then 2 else 0)" if "j < length obs" for j
      using finished_calls [of "bs ! j" env j "Nodes config ! j" "obs ! j" i] b f that lo' by simp
    show "\<exists>shown. snd (obs ! i) = [SetText i shown, QueueUpdateDraw i shown] \<and>
               ((\<exists>err. Inr (Err err)
                        \<in> snd (getNodeStatus env (Nodes config ! i) (ServiceLogReader ''ceremonyclient''))
                      \<and> shown = ''Error fetching status for node '' @ IP (Nodes config ! i) @ '': '' @ err)
               \<or> Inr (Ok shown)
                    \<in> snd (getNodeStatus env (Nodes config ! i) (ServiceLogReader ''ceremonyclient'')))"
      using finished_calls [of "bs ! i" env i "Nodes config ! i" "obs ! i" i] b f i by blast
  qed
  from 1 2 3 4 show ?thesis by blast
qed

theorem setText_twice_same_text_witness:
  "Completed [(statsCommands @ [journalCommand], [SetText 0 report_up, QueueUpdateDraw 0 report_up])]
     \<in> pollCycle env_up cfg1 \<and>
   0 < length (Nodes cfg1) \<and>
   setTextCalls 0 [SetText 0 report_up, QueueUpdateDraw 0 report_up] = 2 \<and>
   Crashed (IndexOutOfRange 3 3)
     [(statsCommands @ [journalCommand], [SetText 0 report_up]),
      (statsCommands @ [journalCommand], [])]
     \<in> pollCycle env_mixed cfg2 \<and>
   0 < length (Nodes cfg2) \<and> 1 < length (Nodes cfg2) \<and>
   setTextCalls 0 [SetText 0 report_up] \<le> 2 \<and>
   setTextCalls 1 [] \<le> 2 \<and> setTextCalls 1 [SetText 0 report_up] \<le> 0"
proof -
  have 1: "0 < length (Nodes cfg1)" by (simp add: cfg1_def)
  have 2: "0 < length (Nodes cfg2)" "1 < length (Nodes cfg2)" by (simp_all add: cfg2_def)
  note up = setText_twice_same_text [OF cycle_up 1]
  note m0 = setText_twice_same_text [OF cycle_mixed 2(1)]
  note m1 = setText_twice_same_text [OF cycle_mixed 2(2)]
  from up have "\<forall>j < Suc 0. setTextCalls 0
                  (snd ([(statsCommands @ [journalCommand],
                          [SetText 0 report_up, QueueUpdateDraw 0 report_up])] ! j))
                  = (if j = 0 then 2 else 0)"
    by simp
  then have a: "setTextCalls 0 [SetText 0 report_up, QueueUpdateDraw 0 report_up] = 2" by simp
  from m0 have "\<forall>j < length (observed (Crashed (IndexOutOfRange 3 3)
                     [(statsCommands @ [journalCommand], [SetText 0 report_up]),
                      (statsCommands @ [journalCommand], [])])).
                  setTextCalls 0 (snd (observed (Crashed (IndexOutOfRange 3 3)
                     [(statsCommands @ [journalCommand], [SetText 0 report_up]),
                      (statsCommands @ [journalCommand], [])]) ! j)) \<le> (if j = 0 then 2 else 0)"
    by (rule conjunct1 [OF conjunct2])
  then have b: "setTextCalls 0 [SetText 0 report_up] \<le> 2"
    by (simp add: observed_def less_Suc_eq)
  from m1 have "\<forall>j < length (observed (Crashed (IndexOutOfRange 3 3)
                     [(statsCommands @ [journalCommand], [SetText 0 report_up]),
                      (statsCommands @ [journalCommand], [])])).
                  setTextCalls 1 (snd (observed (Crashed (IndexOutOfRange 3 3)
                     [(statsCommands @ [journalCommand], [SetText 0 report_up]),
                      (statsCommands @ [journalCommand], [])]) ! j)) \<le> (if j = 1 then 2 else 0)"
    by (rule conjunct1 [OF conjunct2])
  then have c: "setTextCalls 1 [] \<le> 2 \<and> setTextCalls 1 [SetText 0 report_up] \<le> 0"
    by (simp add: observed_def less_Suc_eq)
  from a b c cycle_up cycle_mixed 1 2 show ?thesis by blast
qed

text \<open>
  C4: the claim that the watched keys are emitted in a fixed order, so that two runs
  on the same sample return identical strings, does not hold: the second loop ranges
  over a Go map.  On a sample with lines for two watched keys both orders of the two
  output lines are possible results.
\<close>

theorem extractLogMessages_order_counterexample:
  "c4_out_ab \<in> extractLogMessages c4_sample \<and> c4_out_ba \<in> extractLogMessages c4_sample \<and>
   c4_out_ab \<noteq> c4_out_ba"
  by (simp add: extractLogMessages_def extractFromLines_def outputs_c4_sample)
     (simp add: c4_out_ab_def c4_out_ba_def)

text \<open>
  C4, amended: the results of the extractor on a sample are the texts written along
  the possible sequences of visits of the second loop, and any two of these sequences
  agree up to the order of the lines and the order of the fields within a line: the
  same keys, each with the same fields.
\<close>

theorem extractLogMessages_up_to_order:
  "extractLogMessages logs = render ` visits (collect (Split newline logs)) \<and>
   (\<forall>vis1 \<in> visits (collect (Split newline logs)).
    \<forall>vis2 \<in> visits (collect (Split newline logs)).
      mset (map (\<lambda>v. (fst v, mset (snd v))) vis1) =
      mset (map (\<lambda>v. (fst v, mset (snd v))) vis2))"
proof (intro conjI ballI)
  show "extractLogMessages logs = render ` visits (collect (Split newline logs))"
    by (rule extractLogMessages_char)
  fix vis1 vis2
  assume 1: "vis1 \<in> visits (collect (Split newline logs))"
    and 2: "vis2 \<in> visits (collect (Split newline logs))"
  show "mset (map (\<lambda>v. (fst v, mset (snd v))) vis1) =
        mset (map (\<lambda>v. (fst v, mset (snd v))) vis2)"
    unfolding visits_abstract [OF 1] visits_abstract [OF 2] ..
qed

theorem extractLogMessages_up_to_order_witness:
  "c4_visits_ab \<in> visits (collect (Split newline c4_sample)) \<and>
   c4_visits_ba \<in> visits (collect (Split newline c4_sample)) \<and>
   render c4_visits_ab = c4_out_ab \<and> render c4_visits_ba = c4_out_ba \<and>
   c4_out_ab \<in> extractLogMessages c4_sample \<and> c4_out_ba \<in> extractLogMessages c4_sample \<and>
   mset (map (\<lambda>v. (fst v, mset (snd v))) c4_visits_ab) =
   mset (map (\<lambda>v. (fst v, mset (snd v))) c4_visits_ba)"
proof -
  note t = extractLogMessages_up_to_order [of c4_sample]
  have "c4_out_ab \<in> extractLogMessages c4_sample"
    using t c4_visits_ab_possible render_c4_visits(1) by (metis imageI)
  moreover have "c4_out_ba \<in> extractLogMessages c4_sample"
    using t c4_visits_ba_possible render_c4_visits(2) by (metis imageI)
  moreover have "mset (map (\<lambda>v. (fst v, mset (snd v))) c4_visits_ab) =
                 mset (map (\<lambda>v. (fst v, mset (snd v))) c4_visits_ba)"
    using t c4_visits_ab_possible c4_visits_ba_possible by blast
  ultimately show ?thesis
    using c4_visits_ab_possible c4_visits_ba_possible render_c4_visits by blast
qed

text \<open>
  C5: on a line with at least four whitespace-separated tokens the CPU parser returns
  the usage string built from the second token (user space) and the fourth token
  (system space), both verbatim.
\<close>

theorem parseCPUUsage_tokens:
  "4 \<le> length (Fields cpuStat) \<Longrightarrow>
   parseCPUUsage cpuStat =
     Inr (''User Space: '' @ Fields cpuStat ! 1 @ ''%; System Space: ''
            @ Fields cpuStat ! 3 @ ''%'')"
  by (simp add: parseCPUUsage_def index_def Let_def)

theorem parseCPUUsage_tokens_witness:
  "4 \<le> length (Fields cpu_sample) \<and>
   parseCPUUsage cpu_sample = Inr ''User Space: 1.3%; System Space: 0.7%''"
proof -
  have h: "4 \<le> length (Fields cpu_sample)" by (simp add: Fields_cpu_sample)
  from parseCPUUsage_tokens [OF h] show ?thesis by (simp add: Fields_cpu_sample)
qed

text \<open>
  C6: on a text of at least three lines whose second line has at least three
  whitespace-separated tokens, the memory parser returns the usage string that reports
  the second line's second token as total and its third token as used memory, in MB.
\<close>

theorem parseMemoryUsage_tokens:
  "3 \<le> length (Split newline memStat) \<Longrightarrow>
   3 \<le> length (Fields (Split newline memStat ! 1)) \<Longrightarrow>
   parseMemoryUsage memStat =
     Inr (''Total Memory: '' @ Fields (Split newline memStat ! 1) ! 1
            @ '' MB; Used Memory: '' @ Fields (Split newline memStat ! 1) ! 2 @ '' MB'')"
  by (simp add: parseMemoryUsage_def index_def Let_def)

theorem parseMemoryUsage_tokens_witness:
  "3 \<le> length (Split newline mem_sample) \<and>
   3 \<le> length (Fields (Split newline mem_sample ! 1)) \<and>
   parseMemoryUsage mem_sample = Inr ''Total Memory: 7951 MB; Used Memory: 1234 MB''"
proof -
  have h1: "3 \<le> length (Split newline mem_sample)" by (simp add: Split_mem_sample)
  have h2: "3 \<le> length (Fields (Split newline mem_sample ! 1))"
    by (simp add: Split_mem_sample Fields_mem_line)
  from parseMemoryUsage_tokens [OF h1 h2] show ?thesis
    by (simp add: Split_mem_sample Fields_mem_line)
qed

text \<open>
  C7: the lines that are skipped (not valid JSON, or no string \<open>msg\<close>) have no
  effect: the extractor, which has no error result, returns on a sample what the two
  loops return on the lines that are not skipped, and what it returns on the sample
  made of those lines only.
\<close>

theorem skipped_lines_ignored:
  "extractLogMessages logs = extractFromLines (filter (\<lambda>l. \<not> skipped l) (Split newline logs)) \<and>
   extractLogMessages (Join newline (filter (\<lambda>l. \<not> skipped l) (Split newline logs)))
     = extractLogMessages logs"
proof
  let ?ls = "filter (\<lambda>l. \<not> skipped l) (Split newline logs)"
  have f: "?ls = filter (\<lambda>l. lineRecord l \<noteq> None) (Split newline logs)"
    by (simp add: skipped_iff)
  show 1: "extractLogMessages logs = extractFromLines ?ls"
    unfolding extractLogMessages_def f
    by (rule extractFromLines_cong) (simp only: latest_filter)
  show "extractLogMessages (Join newline ?ls) = extractLogMessages logs"
  proof (cases "?ls = []")
    case True
    have "extractLogMessages (Join newline ?ls) = extractFromLines [[]]"
      by (simp add: True extractLogMessages_def)
    also have "\<dots> = extractFromLines []"
      by (rule extractFromLines_cong) (simp add: lineRecord_empty)
    finally show ?thesis using 1 True by simp
  next
    case False
    have "\<forall>l \<in> set ?ls. newline \<notin> set l" by (auto dest: Split_no_sep)
    with False have "Split newline (Join newline ?ls) = ?ls" by (rule Split_Join)
    then show ?thesis using 1 by (simp add: extractLogMessages_def)
  qed
qed




text \<open>
  C9: the CPU parser returns a usage string (no out-of-range token access) on every
  line with at least four whitespace-separated tokens, and on a line with fewer than
  four tokens it fails with the index-out-of-range panic: at index 1 when there are
  fewer than two tokens, at index 3 otherwise.
\<close>

theorem parseCPUUsage_total_on_four_tokens:
  "(4 \<le> length (Fields cpuStat) \<longrightarrow> (\<exists>usage. parseCPUUsage cpuStat = Inr usage)) \<and>
   (length (Fields cpuStat) < 4 \<longrightarrow>
      parseCPUUsage cpuStat =
        Inl (IndexOutOfRange (if length (Fields cpuStat) < 2 then 1 else 3)
               (length (Fields cpuStat))))"
  by (simp add: parseCPUUsage_def index_def Let_def)

theorem parseCPUUsage_total_on_four_tokens_witness:
  "4 \<le> length (Fields cpu_sample) \<and> (\<exists>usage. parseCPUUsage cpu_sample = Inr usage) \<and>
   length (Fields ''Cpu(s): 1.3 us,'') < 4 \<and>
   parseCPUUsage ''Cpu(s): 1.3 us,'' = Inl (IndexOutOfRange 3 3) \<and>
   length (Fields []) < 4 \<and> parseCPUUsage [] = Inl (IndexOutOfRange 1 0)"
proof -
  have e: "Fields [] = []" by (simp add: Fields_def)
  show ?thesis
    using parseCPUUsage_total_on_four_tokens [of cpu_sample]
      parseCPUUsage_total_on_four_tokens [of "''Cpu(s): 1.3 us,''"]
      parseCPUUsage_total_on_four_tokens [of "[]"]
    by (simp add: Fields_cpu_sample Fields_short e)
qed

text \<open>
  C10: for every node of every configuration and whatever the transport answers,
  the commands a node's goroutine runs are an initial part of the three stats
  commands followed by the journal command of the service \<open>ceremonyclient\<close> (the
  last 50 lines, filtered to the three watched messages); when a fourth command is
  run it is that journal command, and the command of the tmux variant is never run.
  The same holds of the commands seen in every cycle, whether it runs to its end or
  is cut short.
\<close>

theorem service_log_reader_always:
  assumes "c \<in> pollCycle env config" and "i < length (Nodes config)"
  shows "(\<forall>b \<in> nodeTask env i (Nodes config ! i).
            prefix (fst b) (statsCommands @ [journalCommand]) \<and>
            (length (fst b) = 4 \<longrightarrow> last (fst b) = journalCommand) \<and>
            (\<forall>PaneName. readLogsCommand (TmuxLogReader PaneName) \<notin> set (fst b))) \<and>
         length (observed c) = length (Nodes config) \<and>
         prefix (fst (observed c ! i)) (statsCommands @ [journalCommand]) \<and>
         (length (fst (observed c ! i)) = 4 \<longrightarrow> last (fst (observed c ! i)) = journalCommand) \<and>
         (\<forall>PaneName. readLogsCommand (TmuxLogReader PaneName) \<notin> set (fst (observed c ! i)))"
proof -
  from assms(1) obtain bs where l: "length bs = length (Nodes config)"
    and b: "\<forall>i < length bs. bs ! i \<in> nodeTask env i (Nodes config ! i)"
    and lo: "length (observed c) = length bs"
    and co: "\<forall>i < length bs. cutOff (bs ! i) (observed c ! i)"
    by (rule pollCycle_observed)
  have i: "i < length bs" using assms(2) l by simp
  have 1: "\<forall>b \<in> nodeTask env i (Nodes config ! i).
            prefix (fst b) (statsCommands @ [journalCommand]) \<and>
            (length (fst b) = 4 \<longrightarrow> last (fst b) = journalCommand) \<and>
            (\<forall>PaneName. readLogsCommand (TmuxLogReader PaneName) \<notin> set (fst b))"
  proof
    fix b assume "b \<in> nodeTask env i (Nodes config ! i)"
    then have "prefix (fst b) (statsCommands @ [journalCommand])" by (rule nodeTask_journal)
    with issued_journal [OF this]
    show "prefix (fst b) (statsCommands @ [journalCommand]) \<and>
            (length (fst b) = 4 \<longrightarrow> last (fst b) = journalCommand) \<and>
            (\<forall>PaneName. readLogsCommand (TmuxLogReader PaneName) \<notin> set (fst b))" by blast
  qed
  have "prefix (fst (observed c ! i)) (fst (bs ! i))" using co i by (simp add: cutOff_def)
  moreover have "prefix (fst (bs ! i)) (statsCommands @ [journalCommand])"
    using b i by (blast intro: nodeTask_journal)
  ultimately have p: "prefix (fst (observed c ! i)) (statsCommands @ [journalCommand])"
    by (rule prefix_order.trans)
  from 1 l lo p issued_journal [OF p] show ?thesis by simp
qed

theorem service_log_reader_always_witness:
  "Completed [(statsCommands @ [journalCommand], [SetText 0 nologs_text, QueueUpdateDraw 0 nologs_text])]
     \<in> pollCycle env_nologs cfg1 \<and>
   0 < length (Nodes cfg1) \<and>
   (statsCommands @ [journalCommand], Inr (display 0 nologs_text)) \<in> nodeTask env_nologs 0 (Nodes cfg1 ! 0) \<and>
   prefix (statsCommands @ [journalCommand]) (statsCommands @ [journalCommand]) \<and>
   length (statsCommands @ [journalCommand]) = 4 \<and>
   last (statsCommands @ [journalCommand]) = journalCommand \<and>
   readLogsCommand (TmuxLogReader ''0'') \<notin> set (statsCommands @ [journalCommand])"
proof -
  have 1: "0 < length (Nodes cfg1)" by (simp add: cfg1_def)
  have 2: "(statsCommands @ [journalCommand], Inr (display 0 nologs_text))
             \<in> nodeTask env_nologs 0 (Nodes cfg1 ! 0)"
    by (simp add: cfg1_def nodeTask_nologs)
  have 3: "length (statsCommands @ [journalCommand]) = 4" by (simp add: statsCommands_def)
  from service_log_reader_always [OF cycle_nologs 1]
  have "readLogsCommand (TmuxLogReader ''0'') \<notin> set (statsCommands @ [journalCommand])"
    by (simp add: observed_def)
  with cycle_nologs 1 2 3 show ?thesis by simp
qed

end
